theory Spec2Isabelle
  imports Main "HOL-Library.Char_ord" "HOL-Library.List_Lexorder" "HOL-Library.AList"
begin

section \<open>hkg: a package manager for the home directory\<close>

text \<open>
  A shallow embedding of \<^verbatim>\<open>hkg.py\<close>. Files are represented by what the program
  reads out of them, exceptions are values of the type \<open>exn\<close>, and every function that
  touches the disk takes the state it reads and returns the state it leaves.
\<close>

subsection \<open>Exceptions and Python values\<close>

text \<open>
  The exception classes that the modelled code can raise. \<open>ConnectionError\<close> is the
  builtin class, the one every \<^verbatim>\<open>except ConnectionError\<close> of the module names (the module
  imports no other class of that name). \<open>RequestsConnectionError\<close> is
  \<^verbatim>\<open>requests.exceptions.ConnectionError\<close>, the class \<^verbatim>\<open>requests.get\<close> raises when a host
  cannot be reached; it derives from \<^verbatim>\<open>RequestException\<close> and \<^verbatim>\<open>IOError\<close>, not from the
  builtin \<^verbatim>\<open>ConnectionError\<close>.
\<close>

datatype exn =
    KeyError
  | IndexError
  | ValueError
  | FileNotFoundError
  | NotADirectoryError
  | ReadError
  | ParsingError
  | TypeError
  | IsADirectoryError
  | FileExistsError
  | OSError
  | ConnectionError
  | RequestsConnectionError

text \<open>What \<^verbatim>\<open>package_database_api\<close> hands back: a bool, a string or a list of strings.\<close>

datatype pyval = PyBool bool | PyStr string | PyList "string list"

subsection \<open>Strings\<close>

text \<open>
  Strings are ASCII text. \<^verbatim>\<open>str.islower\<close> asks for at least one cased character and no
  upper-case one; \<^verbatim>\<open>str.isalpha\<close> and \<^verbatim>\<open>str.isdigit\<close> ask for a non-empty string.
\<close>

definition ascii_lowercase :: string where
  "ascii_lowercase = ''abcdefghijklmnopqrstuvwxyz''"

definition ascii_uppercase :: string where
  "ascii_uppercase = ''ABCDEFGHIJKLMNOPQRSTUVWXYZ''"

definition ascii_digits :: string where
  "ascii_digits = ''0123456789''"

definition lower_char :: "char \<Rightarrow> char" where
  "lower_char c =
     (case map_of (zip ascii_uppercase ascii_lowercase) c of Some d \<Rightarrow> d | None \<Rightarrow> c)"

definition str_lower :: "string \<Rightarrow> string" where
  "str_lower s = map lower_char s"

definition str_islower :: "string \<Rightarrow> bool" where
  "str_islower s =
     (list_ex (\<lambda>c. c \<in> set ascii_lowercase) s
      \<and> \<not> list_ex (\<lambda>c. c \<in> set ascii_uppercase) s)"

definition str_isalpha :: "string \<Rightarrow> bool" where
  "str_isalpha s =
     (s \<noteq> [] \<and> list_all (\<lambda>c. c \<in> set (ascii_lowercase @ ascii_uppercase)) s)"

definition str_isdigit :: "string \<Rightarrow> bool" where
  "str_isdigit s = (s \<noteq> [] \<and> list_all (\<lambda>c. c \<in> set ascii_digits) s)"

text \<open>\<^verbatim>\<open>str.isascii\<close>: every character is below 128.\<close>

definition str_isascii :: "string \<Rightarrow> bool" where
  "str_isascii s = list_all (\<lambda>c. (of_char c :: nat) < 128) s"

text \<open>\<^verbatim>\<open>s.replace('.', '', 1)\<close>, \<^verbatim>\<open>s[-4:]\<close> and \<^verbatim>\<open>s[:-4]\<close>.\<close>

definition replace_first_dot :: "string \<Rightarrow> string" where
  "replace_first_dot s = remove1 (CHR ''.'') s"

definition last4 :: "string \<Rightarrow> string" where
  "last4 s = drop (length s - 4) s"

definition drop_last4 :: "string \<Rightarrow> string" where
  "drop_last4 s = take (length s - 4) s"

subsection \<open>configparser\<close>

text \<open>
  A parsed configuration is an ordered mapping from section names to sections, a section
  an ordered mapping from option names to values. \<^verbatim>\<open>ConfigParser\<close> files every option
  under \<^verbatim>\<open>optionxform(name)\<close>, the lower-cased name, when it reads a file and when an
  option is set, looked up or deleted through a section; the key list of a section holds
  the names as filed. A new option goes to the end of its section, an existing one keeps
  its place.

  What is modelled and what is not:
  \<^item> \<^verbatim>\<open>str.lower\<close> is modelled on ASCII names (\<open>str_isascii\<close>), where it changes the
    letters A to Z and nothing else; statements that depend on the filing of a name
    carry that hypothesis.
  \<^item> Of value interpolation, the check made when a value is set is modelled
    (\<open>before_set_accepts\<close>): a value with a \<^verbatim>\<open>%\<close> that is neither doubled nor the
    start of \<^verbatim>\<open>%(name)s\<close> raises \<^verbatim>\<open>ValueError\<close>. The expansion of \<^verbatim>\<open>%\<close> when a
    value is read is left out, as is the \<^verbatim>\<open>DEFAULT\<close> section.
  \<^item> A file is taken to read back as what was written to it. That holds for option
    names and values of plain characters (\<open>plain_name\<close>, \<open>plain_value\<close>); a name with
    \<^verbatim>\<open>=\<close> in it, for one, would come back split.
\<close>

type_synonym options = "(string \<times> string) list"
type_synonym config = "(string \<times> options) list"

text \<open>\<^verbatim>\<open>optionxform\<close> is \<^verbatim>\<open>str.lower\<close>, as it acts on ASCII names.\<close>

definition optionxform :: "string \<Rightarrow> string" where
  "optionxform k = str_lower k"

definition keys :: "('k \<times> 'v) list \<Rightarrow> 'k list" where
  "keys d = map fst d"

text \<open>
  \<^verbatim>\<open>BasicInterpolation.before_set\<close>: the value with every doubled \<^verbatim>\<open>%\<close> removed
  (\<^verbatim>\<open>value.replace('%%', '')\<close>), then with every \<^verbatim>\<open>%(name)s\<close> removed
  (\<^verbatim>\<open>_KEYCRE.sub\<close>, the name being one or more characters other than a closing
  parenthesis), must hold no \<^verbatim>\<open>%\<close>. \<^verbatim>\<open>RawConfigParser.set\<close> makes the check on a
  non-empty value only.
\<close>

fun drop_escaped :: "string \<Rightarrow> string" where
  "drop_escaped [] = []"
| "drop_escaped [c] = [c]"
| "drop_escaped (c # d # s) =
     (if c = CHR ''%'' \<and> d = CHR ''%'' then drop_escaped s else c # drop_escaped (d # s))"

function drop_keys :: "string \<Rightarrow> string" where
  "drop_keys [] = []"
| "drop_keys (c # s) =
     (if c = CHR ''%'' \<and> take 1 s = ''(''
         \<and> takeWhile (\<lambda>x. x \<noteq> CHR '')'') (tl s) \<noteq> []
         \<and> take 2 (dropWhile (\<lambda>x. x \<noteq> CHR '')'') (tl s)) = '')s''
      then drop_keys (drop 2 (dropWhile (\<lambda>x. x \<noteq> CHR '')'') (tl s)))
      else c # drop_keys s)"
  by pat_completeness auto
termination
proof (relation "measure length")
  show "wf (measure length)" by simp
next
  fix c :: char and s :: string
  have "length (dropWhile (\<lambda>x. x \<noteq> CHR '')'') (tl s)) \<le> length (tl s)"
    by (rule length_dropWhile_le)
  then show "(drop 2 (dropWhile (\<lambda>x. x \<noteq> CHR '')'') (tl s)), c # s) \<in> measure length"
    by simp
next
  fix c :: char and s :: string
  show "(s, c # s) \<in> measure length" by simp
qed

declare drop_keys.simps [simp del]

definition before_set_accepts :: "string \<Rightarrow> bool" where
  "before_set_accepts v = (v = [] \<or> CHR ''%'' \<notin> set (drop_keys (drop_escaped v)))"

text \<open>
  Names and values of plain characters: lower-case letters, digits, point, hyphen and
  underscore for a name, which is not empty; for a value upper-case letters as well.
\<close>

definition plain_name :: "string \<Rightarrow> bool" where
  "plain_name k =
     (k \<noteq> [] \<and> list_all (\<lambda>c. c \<in> set (ascii_lowercase @ ascii_digits @ ''.-_'')) k)"

definition plain_value :: "string \<Rightarrow> bool" where
  "plain_value v =
     list_all (\<lambda>c. c \<in> set (ascii_lowercase @ ascii_uppercase @ ascii_digits @ ''.-_'')) v"

text \<open>\<^verbatim>\<open>cfg[s]\<close>\<close>

definition get_section :: "config \<Rightarrow> string \<Rightarrow> exn + options" where
  "get_section cfg s = (case map_of cfg s of None \<Rightarrow> Inl KeyError | Some sec \<Rightarrow> Inr sec)"

text \<open>\<^verbatim>\<open>cfg[s][k] = v\<close>\<close>

definition set_option :: "config \<Rightarrow> string \<Rightarrow> string \<Rightarrow> string \<Rightarrow> exn + config" where
  "set_option cfg s k v =
     (case map_of cfg s of
        None \<Rightarrow> Inl KeyError
      | Some sec \<Rightarrow>
          if before_set_accepts v
          then Inr (AList.update s (AList.update (optionxform k) v sec) cfg)
          else Inl ValueError)"

text \<open>\<^verbatim>\<open>del cfg[s][k]\<close>\<close>

definition del_option :: "config \<Rightarrow> string \<Rightarrow> string \<Rightarrow> exn + config" where
  "del_option cfg s k =
     (case map_of cfg s of
        None \<Rightarrow> Inl KeyError
      | Some sec \<Rightarrow>
          if optionxform k \<in> set (keys sec)
          then Inr (AList.update s (AList.delete (optionxform k) sec) cfg)
          else Inl KeyError)"

text \<open>\<^verbatim>\<open>cfg[s][k]\<close>\<close>

definition get_option :: "config \<Rightarrow> string \<Rightarrow> string \<Rightarrow> exn + string" where
  "get_option cfg s k =
     (case map_of cfg s of
        None \<Rightarrow> Inl KeyError
      | Some sec \<Rightarrow>
          (case map_of sec (optionxform k) of None \<Rightarrow> Inl KeyError | Some v \<Rightarrow> Inr v))"

text \<open>\<^verbatim>\<open>k in cfg[s]\<close>, configparser's own membership test (\<^verbatim>\<open>has_option\<close>).\<close>

definition has_option :: "config \<Rightarrow> string \<Rightarrow> string \<Rightarrow> bool" where
  "has_option cfg s k =
     (case map_of cfg s of None \<Rightarrow> False | Some sec \<Rightarrow> optionxform k \<in> set (keys sec))"

subsection \<open>A configuration file on disk\<close>

text \<open>
  \<open>parsed\<close> is \<open>None\<close> while the file does not exist. \<open>opened_w\<close> counts how often the
  file has been opened for writing. \<^verbatim>\<open>ConfigParser.read\<close> of a missing file leaves the
  parser empty; \<^verbatim>\<open>open(path, 'w')\<close> creates or truncates the file.
\<close>

record conf_file =
  parsed :: "config option"
  opened_w :: nat

definition read_config :: "conf_file \<Rightarrow> config" where
  "read_config f = (case parsed f of None \<Rightarrow> [] | Some c \<Rightarrow> c)"

definition open_w :: "conf_file \<Rightarrow> conf_file" where
  "open_w f = f\<lparr>parsed := Some [], opened_w := Suc (opened_w f)\<rparr>"

text \<open>
  \<^verbatim>\<open>ConfigParser.write\<close>: the file then reads back as the configuration written, which
  is so for plain option names and plain values.
\<close>

definition write_config :: "config \<Rightarrow> conf_file \<Rightarrow> conf_file" where
  "write_config c f = f\<lparr>parsed := Some c\<rparr>"

subsection \<open>package_database_api\<close>

definition package_database_api ::
  "conf_file \<Rightarrow> string \<Rightarrow> string \<Rightarrow> string \<Rightarrow> string \<Rightarrow> (exn + pyval) \<times> conf_file" where
  "package_database_api db db_action db_section db_pkgname db_pkgver =
     (let pkg_db = read_config db in
      if db_action = ''create'' then
        (case set_option pkg_db db_section db_pkgname db_pkgver of
           Inl e \<Rightarrow> (Inl e, db)
         | Inr pkg_db1 \<Rightarrow> (Inr (PyBool True), write_config pkg_db1 (open_w db)))
      else if db_action = ''delete'' then
        (case set_option pkg_db db_section db_pkgname db_pkgver of
           Inl e \<Rightarrow> (Inl e, db)
         | Inr pkg_db1 \<Rightarrow>
             (let pkg_db_file = open_w db in
              case del_option pkg_db1 db_section db_pkgname of
                Inl e \<Rightarrow> (Inl e, pkg_db_file)
              | Inr pkg_db2 \<Rightarrow> (Inr (PyBool True), write_config pkg_db2 pkg_db_file)))
      else if db_action = ''update'' then
        (case set_option pkg_db db_section db_pkgname db_pkgver of
           Inl e \<Rightarrow> (Inl e, db)
         | Inr pkg_db1 \<Rightarrow> (Inr (PyBool True), write_config pkg_db1 (open_w db)))
      else if db_action = ''check'' then
        (case get_section pkg_db db_section of
           Inl e \<Rightarrow> (Inl e, db)
         | Inr sec \<Rightarrow> (Inr (PyBool (db_pkgname \<in> set (keys sec))), db))
      else if db_action = ''version'' then
        (case get_option pkg_db db_section db_pkgname of
           Inl e \<Rightarrow> (Inl e, db)
         | Inr v \<Rightarrow> (Inr (PyStr v), db))
      else if db_action = ''list'' then
        (case get_section pkg_db db_section of
           Inl e \<Rightarrow> (Inl e, db)
         | Inr sec \<Rightarrow> (Inr (PyList (keys sec)), db))
      else (Inr (PyBool False), db))"

subsection \<open>validate_package_database\<close>

text \<open>
  \<^verbatim>\<open>db_data\<close> is the parser's dictionary of sections. The two lookups
  \<^verbatim>\<open>db_data['INSTALLED']\<close> and \<^verbatim>\<open>db_data['AVAILABLE']\<close> stand behind the test that both
  names are keys, so \<open>section_of\<close> never takes its second branch there.
\<close>

definition section_of :: "config \<Rightarrow> string \<Rightarrow> options" where
  "section_of cfg s = (case map_of cfg s of Some sec \<Rightarrow> sec | None \<Rightarrow> [])"

definition validate_package_database :: "conf_file \<Rightarrow> bool" where
  "validate_package_database db =
     (let db_data = read_config db in
      if length (keys db_data) = 2 then
        if ''INSTALLED'' \<in> set (keys db_data) \<and> ''AVAILABLE'' \<in> set (keys db_data) then
          if list_all str_islower (keys (section_of db_data ''INSTALLED''))
             \<and> list_all str_islower (keys (section_of db_data ''AVAILABLE''))
             \<and> list_all str_isalpha (keys (section_of db_data ''INSTALLED''))
             \<and> list_all str_isalpha (keys (section_of db_data ''AVAILABLE''))
          then
            if list_all (\<lambda>package_ver. str_isdigit (replace_first_dot package_ver))
                 (map snd (section_of db_data ''INSTALLED''))
               \<and> list_all (\<lambda>package_ver. str_isdigit (replace_first_dot package_ver))
                 (map snd (section_of db_data ''AVAILABLE''))
            then True
            else False
          else False
        else False
      else False)"

text \<open>
  The version pattern in the words of the specification: digits, or digits, a decimal
  point and digits.
\<close>

definition spec_version_pattern :: "string \<Rightarrow> bool" where
  "spec_version_pattern v =
     (str_isdigit v
      \<or> (str_isdigit (takeWhile (\<lambda>c. c \<noteq> CHR ''.'') v)
         \<and> dropWhile (\<lambda>c. c \<noteq> CHR ''.'') v \<noteq> []
         \<and> str_isdigit (tl (dropWhile (\<lambda>c. c \<noteq> CHR ''.'') v))))"

subsection \<open>add_repo\<close>

text \<open>The state is \<^verbatim>\<open>settings.conf\<close> under the prefix.\<close>

definition add_repo :: "conf_file \<Rightarrow> string \<Rightarrow> (exn + bool) \<times> conf_file" where
  "add_repo settings repo_url =
     (let config_data = read_config settings in
      case set_option config_data ''SOURCES'' repo_url ''enabled'' of
        Inl e \<Rightarrow> (Inl e, settings)
      | Inr config_data1 \<Rightarrow> (Inr True, write_config config_data1 (open_w settings)))"

subsection \<open>validate_source_directory\<close>

text \<open>
  A file tree: a file is either text that configparser reads (\<open>Conf\<close>, with what it
  reads) or anything else (\<open>Raw\<close>). \<^verbatim>\<open>os.listdir\<close> raises on a path that does not exist
  and on a path that is not a directory. The function is given \<open>base\<close>, which is
  \<^verbatim>\<open>os.path.basename(os.path.normpath(source_location))\<close>, and what lies at
  \<^verbatim>\<open>source_location\<close>. The base name is an entry name, or empty (for \<^verbatim>\<open>/\<close>), or
  \<^verbatim>\<open>.\<close> or \<^verbatim>\<open>..\<close>.
\<close>

datatype content = Raw string | Conf config

datatype fs = File content | Dir "(string \<times> fs) list"

definition listdir :: "fs option \<Rightarrow> exn + string list" where
  "listdir n =
     (case n of
        None \<Rightarrow> Inl FileNotFoundError
      | Some (File c) \<Rightarrow> Inl NotADirectoryError
      | Some (Dir es) \<Rightarrow> Inr (keys es))"

definition child :: "fs option \<Rightarrow> string \<Rightarrow> fs option" where
  "child n name =
     (case n of
        None \<Rightarrow> None
      | Some (File c) \<Rightarrow> None
      | Some (Dir es) \<Rightarrow> map_of es name)"

text \<open>
  What \<^verbatim>\<open>source_location + '/' + base\<close> names: the tree itself for an empty base and
  for \<^verbatim>\<open>.\<close>, the entry of that name otherwise. For \<^verbatim>\<open>..\<close> it names the parent
  directory, which exists when the tree does; what the parent holds does not enter the
  result, since no listing has an entry \<^verbatim>\<open>..\<close> and the first check has failed, and is
  taken to be nothing.
\<close>

definition inner_directory :: "fs option \<Rightarrow> string \<Rightarrow> fs option" where
  "inner_directory source_location base =
     (if base = [] \<or> base = ''.'' then source_location
      else if base = ''..'' then Some (Dir [])
      else child source_location base)"

definition validate_source_directory :: "string \<Rightarrow> fs option \<Rightarrow> exn + bool" where
  "validate_source_directory base source_location =
     (case listdir source_location of
        Inl e \<Rightarrow> Inl e
      | Inr top_level \<Rightarrow>
          (let check_status_1 =
                 (if length top_level = 2 then
                    if ''metadata'' \<in> set top_level then
                      if base \<in> set top_level then True else False
                    else False
                  else False)
           in case listdir (inner_directory source_location base) of
                Inl e \<Rightarrow> Inl e
              | Inr inner \<Rightarrow>
                  (let check_status_2 =
                         (if length inner = 3 then
                            if ''etc'' \<in> set inner then
                              if ''lib'' \<in> set inner then True else False
                            else False
                          else False)
                   in Inr (check_status_1 \<and> check_status_2))))"

subsection \<open>update_repo\<close>

text \<open>
  A repository directory: the names \<^verbatim>\<open>os.listdir\<close> returns, in the order it returns
  them; the store \<^verbatim>\<open>packages.hdb\<close>; and, for every entry that \<^verbatim>\<open>tarfile.open\<close> can read,
  its members by name, each with what \<^verbatim>\<open>read_string\<close> makes of its text (a parsed
  configuration, or the exception it raises).
\<close>

type_synonym tar = "(string \<times> (exn + config)) list"

record repo =
  listing :: "string list"
  packages_hdb :: conf_file
  tarfiles :: "(string \<times> tar) list"

text \<open>\<^verbatim>\<open>xs.remove(x)\<close> raises \<^verbatim>\<open>ValueError\<close> when \<open>x\<close> is not in the list.\<close>

definition list_remove :: "string \<Rightarrow> string list \<Rightarrow> exn + string list" where
  "list_remove x xs = (if x \<in> set xs then Inr (remove1 x xs) else Inl ValueError)"

text \<open>
  The loop \<^verbatim>\<open>for i in range(0, len(repo_pkg_list))\<close>: the bound \<open>n\<close> is the length
  before the loop starts, the list shrinks inside it, and \<^verbatim>\<open>repo_pkg_list[i]\<close> raises
  \<^verbatim>\<open>IndexError\<close> past the end.
\<close>

function drop_non_hkg :: "nat \<Rightarrow> nat \<Rightarrow> string list \<Rightarrow> exn + string list" where
  "drop_non_hkg i n repo_pkg_list =
     (if i < n then
        if i < length repo_pkg_list then
          if last4 (repo_pkg_list ! i) \<noteq> ''.hkg''
          then drop_non_hkg (Suc i) n (remove1 (repo_pkg_list ! i) repo_pkg_list)
          else drop_non_hkg (Suc i) n repo_pkg_list
        else Inl IndexError
      else Inr repo_pkg_list)"
  by pat_completeness auto
termination
  by (relation "measure (\<lambda>(i, n, xs). n - i)") auto

declare drop_non_hkg.simps [simp del]

text \<open>The test of line 479: the last four characters are \<^verbatim>\<open>.hkg\<close>.\<close>

definition is_hkg :: "string \<Rightarrow> bool" where
  "is_hkg name = (last4 name = ''.hkg'')"

text \<open>Lines 487 to 493: the version in the metadata member of one archive.\<close>

definition archive_version :: "(string \<times> tar) list \<Rightarrow> string \<Rightarrow> exn + string" where
  "archive_version tars i =
     (case map_of tars i of
        None \<Rightarrow> Inl ReadError
      | Some repo_pkg_archive \<Rightarrow>
          (case map_of repo_pkg_archive (''./'' @ drop_last4 i @ ''/metadata'') of
             None \<Rightarrow> Inl KeyError
           | Some (Inl e) \<Rightarrow> Inl e
           | Some (Inr repo_pkg_data) \<Rightarrow> get_option repo_pkg_data ''METADATA'' ''version''))"

fun read_versions ::
  "(string \<times> tar) list \<Rightarrow> string list \<Rightarrow> (string \<times> string) list \<Rightarrow> exn + (string \<times> string) list" where
  "read_versions tars [] repo_pkg_version_dict = Inr repo_pkg_version_dict"
| "read_versions tars (i # rest) repo_pkg_version_dict =
     (case archive_version tars i of
        Inl e \<Rightarrow> Inl e
      | Inr v \<Rightarrow> read_versions tars rest (AList.update (drop_last4 i) v repo_pkg_version_dict))"

text \<open>Truth value of a returned object, as \<^verbatim>\<open>not\<close> and \<^verbatim>\<open>if\<close> take it.\<close>

definition truthy :: "pyval \<Rightarrow> bool" where
  "truthy v = (case v of PyBool b \<Rightarrow> b | PyStr s \<Rightarrow> s \<noteq> [] | PyList l \<Rightarrow> l \<noteq> [])"

text \<open>\<^verbatim>\<open>a > b\<close> for a string \<open>a\<close>: defined between strings only.\<close>

definition str_gt :: "string \<Rightarrow> pyval \<Rightarrow> exn + bool" where
  "str_gt a v = (case v of PyStr b \<Rightarrow> Inr (a > b) | _ \<Rightarrow> Inl TypeError)"

definition dict_get :: "(string \<times> string) list \<Rightarrow> string \<Rightarrow> exn + string" where
  "dict_get d k = (case map_of d k of None \<Rightarrow> Inl KeyError | Some v \<Rightarrow> Inr v)"

text \<open>The second loop: add what is new, raise the version of what is newer.\<close>

fun add_or_update ::
  "(string \<times> string) list \<Rightarrow> string list \<Rightarrow> conf_file \<Rightarrow> (exn + unit) \<times> conf_file" where
  "add_or_update d [] db = (Inr (), db)"
| "add_or_update d (i # rest) db =
     (case package_database_api db ''check'' ''AVAILABLE'' i ''-1'' of
        (Inl e, db1) \<Rightarrow> (Inl e, db1)
      | (Inr found, db1) \<Rightarrow>
          if \<not> truthy found then
            (case dict_get d i of
               Inl e \<Rightarrow> (Inl e, db1)
             | Inr v \<Rightarrow>
                 (case package_database_api db1 ''create'' ''AVAILABLE'' i v of
                    (Inl e, db2) \<Rightarrow> (Inl e, db2)
                  | (Inr _, db2) \<Rightarrow> add_or_update d rest db2))
          else
            (case dict_get d i of
               Inl e \<Rightarrow> (Inl e, db1)
             | Inr v \<Rightarrow>
                 (case package_database_api db1 ''version'' ''AVAILABLE'' i ''-1'' of
                    (Inl e, db2) \<Rightarrow> (Inl e, db2)
                  | (Inr stored, db2) \<Rightarrow>
                      (case str_gt v stored of
                         Inl e \<Rightarrow> (Inl e, db2)
                       | Inr True \<Rightarrow>
                           (case package_database_api db2 ''update'' ''AVAILABLE'' i v of
                              (Inl e, db3) \<Rightarrow> (Inl e, db3)
                            | (Inr _, db3) \<Rightarrow> add_or_update d rest db3)
                       | Inr False \<Rightarrow> add_or_update d rest db2))))"

text \<open>The third loop: delete what is in the store and no longer on disk.\<close>

fun delete_stale ::
  "(string \<times> string) list \<Rightarrow> string list \<Rightarrow> conf_file \<Rightarrow> (exn + unit) \<times> conf_file" where
  "delete_stale d [] db = (Inr (), db)"
| "delete_stale d (i # rest) db =
     (if i \<notin> set (keys d) then
        (case package_database_api db ''delete'' ''AVAILABLE'' i ''-1'' of
           (Inl e, db1) \<Rightarrow> (Inl e, db1)
         | (Inr _, db1) \<Rightarrow> delete_stale d rest db1)
      else delete_stale d rest db)"

text \<open>
  Two notions for reasoning about the loops. A package is settled in the \<^verbatim>\<open>AVAILABLE\<close>
  section when the version on disk is not greater than the stored one; \<open>prune\<close> is
  the section after the third loop has gone over a list of names.
\<close>

definition settled :: "(string \<times> string) list \<Rightarrow> options \<Rightarrow> string \<Rightarrow> bool" where
  "settled d av k =
     (case (map_of d k, map_of av k) of
        (Some v, Some s) \<Rightarrow> \<not> v > s
      | _ \<Rightarrow> False)"

definition prune :: "(string \<times> string) list \<Rightarrow> string list \<Rightarrow> options \<Rightarrow> options" where
  "prune d stale av = fold (\<lambda>i a. if i \<notin> set (keys d) then AList.delete i a else a) stale av"

definition update_repo :: "repo \<Rightarrow> (exn + bool) \<times> repo" where
  "update_repo r =
     (if parsed (packages_hdb r) = None then (Inr False, r)
      else
        (case list_remove ''packages.hdb'' (listing r) of
           Inl e \<Rightarrow> (Inl e, r)
         | Inr repo_pkg_list0 \<Rightarrow>
             (case (if length repo_pkg_list0 > 0
                    then drop_non_hkg 0 (length repo_pkg_list0) repo_pkg_list0
                    else Inr repo_pkg_list0) of
                Inl e \<Rightarrow> (Inl e, r)
              | Inr repo_pkg_list \<Rightarrow>
                  (case read_versions (tarfiles r) repo_pkg_list [] of
                     Inl e \<Rightarrow> (Inl e, r)
                   | Inr repo_pkg_version_dict \<Rightarrow>
                       (case add_or_update repo_pkg_version_dict (keys repo_pkg_version_dict)
                               (packages_hdb r) of
                          (Inl e, db1) \<Rightarrow> (Inl e, r\<lparr>packages_hdb := db1\<rparr>)
                        | (Inr _, db1) \<Rightarrow>
                            (case get_section (read_config db1) ''AVAILABLE'' of
                               Inl e \<Rightarrow> (Inl e, r\<lparr>packages_hdb := db1\<rparr>)
                             | Inr available \<Rightarrow>
                                 (case delete_stale repo_pkg_version_dict (keys available) db1 of
                                    (Inl e, db2) \<Rightarrow> (Inl e, r\<lparr>packages_hdb := db2\<rparr>)
                                  | (Inr _, db2) \<Rightarrow> (Inr True, r\<lparr>packages_hdb := db2\<rparr>))))))))"

subsection \<open>The home directory\<close>

text \<open>
  The places the install, remove and update operations touch:
  \<^item> \<open>settings_conf\<close>: \<^verbatim>\<open>~/.config/hkg/settings.conf\<close>;
  \<^item> \<open>local_hdb\<close>: \<^verbatim>\<open>~/.local/share/hkg/packages.hdb\<close>;
  \<^item> \<open>cache_hkg\<close>: the files of \<^verbatim>\<open>~/.cache/hkg\<close> by name, each with the tree
    \<^verbatim>\<open>tarfile\<close> unpacks from it (\<open>None\<close> when it is no archive);
  \<^item> \<open>cache_temp\<close>: the entries of \<^verbatim>\<open>~/.cache/hkg/temp\<close>, \<open>None\<close> while that directory
    does not exist;
  \<^item> \<open>share_hkg\<close>: the other entries of \<^verbatim>\<open>~/.local/share/hkg\<close>;
  \<^item> \<open>home_bin\<close>: the entries of \<^verbatim>\<open>~/bin\<close>, each a symbolic link into the install
    root (with its target path) or some other object.

  Package names are plain, non-empty file names. \<^verbatim>\<open>requests.get\<close> is a function from the
  URL to the exception raised or the response received; of a response the program reads
  the text through \<^verbatim>\<open>read_string\<close> and the bytes through \<^verbatim>\<open>tarfile\<close>.
\<close>

datatype bin_entry = Symlink "string list" | Other

record world =
  settings_conf :: conf_file
  local_hdb :: conf_file
  cache_hkg :: "(string \<times> (string \<times> fs) list option) list"
  cache_temp :: "(string \<times> fs) list option"
  share_hkg :: "(string \<times> fs) list"
  home_bin :: "(string \<times> bin_entry) list"

record response =
  text_config :: "exn + config"
  content_tar :: "(string \<times> fs) list option"

type_synonym net = "string \<Rightarrow> exn + response"

text \<open>The node a path leads to, and a change made to the entries of the directory at a path.\<close>

fun lookup :: "(string \<times> fs) list \<Rightarrow> string list \<Rightarrow> fs option" where
  "lookup es [] = Some (Dir es)"
| "lookup es (n # path) =
     (case map_of es n of
        None \<Rightarrow> None
      | Some (File c) \<Rightarrow> (if path = [] then Some (File c) else None)
      | Some (Dir ds) \<Rightarrow> lookup ds path)"

fun alter ::
  "((string \<times> fs) list \<Rightarrow> exn + (string \<times> fs) list) \<Rightarrow> string list \<Rightarrow> (string \<times> fs) list
    \<Rightarrow> exn + (string \<times> fs) list" where
  "alter f [] es = f es"
| "alter f (n # path) es =
     (case map_of es n of
        None \<Rightarrow> Inl FileNotFoundError
      | Some (File c) \<Rightarrow> Inl NotADirectoryError
      | Some (Dir ds) \<Rightarrow>
          (case alter f path ds of
             Inl e \<Rightarrow> Inl e
           | Inr ds1 \<Rightarrow> Inr (AList.update n (Dir ds1) es)))"

text \<open>
  \<^verbatim>\<open>extractall\<close>: members are written over what is there; directories that exist are
  kept and filled.
\<close>

fun extract_node :: "fs \<Rightarrow> fs option \<Rightarrow> exn + fs"
  and extract_entries :: "(string \<times> fs) list \<Rightarrow> (string \<times> fs) list \<Rightarrow> exn + (string \<times> fs) list" where
  "extract_node (File c) None = Inr (File c)"
| "extract_node (File c) (Some (File old)) = Inr (File c)"
| "extract_node (File c) (Some (Dir ds)) = Inl IsADirectoryError"
| "extract_node (Dir ms) None =
     (case extract_entries ms [] of Inl e \<Rightarrow> Inl e | Inr ds1 \<Rightarrow> Inr (Dir ds1))"
| "extract_node (Dir ms) (Some (File old)) = Inl FileExistsError"
| "extract_node (Dir ms) (Some (Dir ds)) =
     (case extract_entries ms ds of Inl e \<Rightarrow> Inl e | Inr ds1 \<Rightarrow> Inr (Dir ds1))"
| "extract_entries [] ds = Inr ds"
| "extract_entries ((n, m) # ms) ds =
     (case extract_node m (map_of ds n) of
        Inl e \<Rightarrow> Inl e
      | Inr x \<Rightarrow> extract_entries ms (AList.update n x ds))"

text \<open>
  The receiving side of \<^verbatim>\<open>os.rename\<close>: the node arrives under \<open>name\<close> and replaces a
  file, or an empty directory when it is a directory itself.
\<close>

definition rename_into :: "fs \<Rightarrow> string \<Rightarrow> (string \<times> fs) list \<Rightarrow> exn + (string \<times> fs) list" where
  "rename_into n name es =
     (case map_of es name of
        None \<Rightarrow> Inr (AList.update name n es)
      | Some (File old) \<Rightarrow>
          (case n of File c \<Rightarrow> Inr (AList.update name n es) | Dir ms \<Rightarrow> Inl NotADirectoryError)
      | Some (Dir ds) \<Rightarrow>
          (case n of
             File c \<Rightarrow> Inl IsADirectoryError
           | Dir ms \<Rightarrow> if ds = [] then Inr (AList.update name n es) else Inl OSError))"

text \<open>\<^verbatim>\<open>shutil.rmtree\<close> of an entry of the install root.\<close>

definition rmtree :: "string \<Rightarrow> (string \<times> fs) list \<Rightarrow> exn + (string \<times> fs) list" where
  "rmtree name es =
     (case map_of es name of
        None \<Rightarrow> Inl FileNotFoundError
      | Some (File c) \<Rightarrow> Inl NotADirectoryError
      | Some (Dir ds) \<Rightarrow> Inr (AList.delete name es))"

text \<open>\<^verbatim>\<open>package_database_api\<close> on the local store.\<close>

definition local_api ::
  "world \<Rightarrow> string \<Rightarrow> string \<Rightarrow> string \<Rightarrow> string \<Rightarrow> (exn + pyval) \<times> world" where
  "local_api w db_action db_section db_pkgname db_pkgver =
     (case package_database_api (local_hdb w) db_action db_section db_pkgname db_pkgver of
        (r, db1) \<Rightarrow> (r, w\<lparr>local_hdb := db1\<rparr>))"

text \<open>
  \<^verbatim>\<open>init_package_database\<close> on a directory that exists: the two section headers are
  appended to the store file. The program calls it on a missing file only.
\<close>

definition init_package_database :: "conf_file \<Rightarrow> conf_file" where
  "init_package_database db =
     db\<lparr>parsed := Some (read_config db @ [(''INSTALLED'', []), (''AVAILABLE'', [])])\<rparr>"

subsection \<open>install_package\<close>

text \<open>
  The loop over the sources, lines 172 to 194. It returns \<open>True\<close> when it was left by
  \<^verbatim>\<open>break\<close>, with the archive written to the cache, and \<open>False\<close> when it ran to its
  \<^verbatim>\<open>else\<close> branch. The handler \<^verbatim>\<open>except ConnectionError\<close> catches the builtin class.
\<close>

fun find_and_download :: "net \<Rightarrow> string \<Rightarrow> string list \<Rightarrow> world \<Rightarrow> (exn + bool) \<times> world" where
  "find_and_download requests_get pkg_name [] w = (Inr False, w)"
| "find_and_download requests_get pkg_name (s # sources) w =
     (case requests_get (s @ ''/packages.hdb'') of
        Inl e \<Rightarrow>
          if e = ConnectionError then find_and_download requests_get pkg_name sources w
          else (Inl e, w)
      | Inr remote_db \<Rightarrow>
          (case text_config remote_db of
             Inl e \<Rightarrow> (Inl e, w)
           | Inr remote_pkg_data \<Rightarrow>
               (case get_section remote_pkg_data ''AVAILABLE'' of
                  Inl e \<Rightarrow> (Inl e, w)
                | Inr available \<Rightarrow>
                    if pkg_name \<in> set (keys available) then
                      (case requests_get (s @ ''/'' @ pkg_name @ ''.hkg'') of
                         Inl e \<Rightarrow> (Inl e, w)
                       | Inr pkg_download \<Rightarrow>
                           (Inr True,
                            w\<lparr>cache_hkg := AList.update (pkg_name @ ''.hkg'')
                                  (content_tar pkg_download) (cache_hkg w)\<rparr>))
                    else find_and_download requests_get pkg_name sources w)))"

text \<open>
  A source the loop passes by: its fetch raises the builtin \<^verbatim>\<open>ConnectionError\<close>, or it
  serves a store whose \<^verbatim>\<open>AVAILABLE\<close> section does not list the package.
\<close>

definition lacks :: "net \<Rightarrow> string \<Rightarrow> string \<Rightarrow> bool" where
  "lacks requests_get pkg_name s =
     (case requests_get (s @ ''/packages.hdb'') of
        Inl e \<Rightarrow> e = ConnectionError
      | Inr remote_db \<Rightarrow>
          (case text_config remote_db of
             Inl e \<Rightarrow> False
           | Inr remote_pkg_data \<Rightarrow>
               (case get_section remote_pkg_data ''AVAILABLE'' of
                  Inl e \<Rightarrow> False
                | Inr available \<Rightarrow> pkg_name \<notin> set (keys available))))"

text \<open>\<^verbatim>\<open>os.path.exists\<close> of an entry of \<^verbatim>\<open>~/bin\<close> follows a symbolic link.\<close>

definition bin_exists :: "world \<Rightarrow> string \<Rightarrow> bool" where
  "bin_exists w name =
     (case map_of (home_bin w) name of
        None \<Rightarrow> False
      | Some Other \<Rightarrow> True
      | Some (Symlink target) \<Rightarrow> lookup (share_hkg w) target \<noteq> None)"

text \<open>Lines 212 to 219. \<^verbatim>\<open>os.symlink\<close> raises when the name is taken by a dangling link.\<close>

definition link_executable :: "string \<Rightarrow> string \<Rightarrow> world \<Rightarrow> exn + world" where
  "link_executable pkg_name exe w =
     (if bin_exists w pkg_name then Inr w
      else
        (case map_of (home_bin w) pkg_name of
           Some l \<Rightarrow> Inl FileExistsError
         | None \<Rightarrow>
             Inr (w\<lparr>home_bin := AList.update pkg_name (Symlink [pkg_name, pkg_name, exe])
                                  (home_bin w)\<rparr>)))"

text \<open>
  \<^verbatim>\<open>ConfigParser.read\<close> of a path: a path that cannot be opened is passed over and
  leaves the parser empty.
\<close>

definition read_path :: "fs option \<Rightarrow> exn + config" where
  "read_path n =
     (case n of
        None \<Rightarrow> Inr []
      | Some (Dir ds) \<Rightarrow> Inr []
      | Some (File (Raw t)) \<Rightarrow> Inl ParsingError
      | Some (File (Conf c)) \<Rightarrow> Inr c)"

text \<open>Lines 221 to 235.\<close>

definition register_installed :: "string \<Rightarrow> world \<Rightarrow> (exn + bool) \<times> world" where
  "register_installed pkg_name w =
     (let w1 = (if parsed (local_hdb w) = None
                then w\<lparr>local_hdb := init_package_database (local_hdb w)\<rparr> else w)
      in case read_path (lookup (share_hkg w1) [pkg_name, ''metadata'']) of
           Inl e \<Rightarrow> (Inl e, w1)
         | Inr metadata \<Rightarrow>
             (case get_option metadata ''METADATA'' ''version'' of
                Inl e \<Rightarrow> (Inl e, w1)
              | Inr pkg_installed_version \<Rightarrow>
                  (case local_api w1 ''create'' ''INSTALLED'' pkg_name pkg_installed_version of
                     (Inl e, w2) \<Rightarrow> (Inl e, w2)
                   | (Inr r, w2) \<Rightarrow> (Inr True, w2))))"

text \<open>Lines 196 to 219, then the registration.\<close>

definition unpack_and_link :: "string \<Rightarrow> world \<Rightarrow> (exn + bool) \<times> world" where
  "unpack_and_link pkg_name w =
     (case map_of (cache_hkg w) (pkg_name @ ''.hkg'') of
        None \<Rightarrow> (Inl FileNotFoundError, w)
      | Some None \<Rightarrow> (Inl ReadError, w)
      | Some (Some members) \<Rightarrow>
          (case extract_entries members (share_hkg w) of
             Inl e \<Rightarrow> (Inl e, w)
           | Inr share1 \<Rightarrow>
               (let w1 = w\<lparr>share_hkg := share1\<rparr> in
                case listdir (lookup share1 [pkg_name, pkg_name]) of
                  Inl e \<Rightarrow> (Inl e, w1)
                | Inr bin_target0 \<Rightarrow>
                    (case list_remove ''etc'' bin_target0 of
                       Inl e \<Rightarrow> (Inl e, w1)
                     | Inr bin_target1 \<Rightarrow>
                         (case list_remove ''lib'' bin_target1 of
                            Inl e \<Rightarrow> (Inl e, w1)
                          | Inr bin_target \<Rightarrow>
                              (case bin_target of
                                 [exe] \<Rightarrow>
                                   (case link_executable pkg_name exe w1 of
                                      Inl e \<Rightarrow> (Inl e, w1)
                                    | Inr w2 \<Rightarrow> register_installed pkg_name w2)
                               | _ \<Rightarrow> (Inr False, w1)))))))"

definition install_package :: "net \<Rightarrow> string \<Rightarrow> string \<Rightarrow> world \<Rightarrow> (exn + bool) \<times> world" where
  "install_package requests_get pkg_name source_override w =
     (case (if parsed (local_hdb w) \<noteq> None
            then local_api w ''check'' ''INSTALLED'' pkg_name ''0''
            else (Inr (PyBool False), w)) of
        (Inl e, w1) \<Rightarrow> (Inl e, w1)
      | (Inr installed, w1) \<Rightarrow>
          if truthy installed then (Inr False, w1)
          else
            (case (if source_override = ''''
                   then (case get_section (read_config (settings_conf w1)) ''SOURCES'' of
                           Inl e \<Rightarrow> Inl e
                         | Inr srcs \<Rightarrow> Inr (keys srcs))
                   else Inr [source_override]) of
               Inl e \<Rightarrow> (Inl e, w1)
             | Inr sources \<Rightarrow>
                 (case find_and_download requests_get pkg_name sources w1 of
                    (Inl e, w2) \<Rightarrow> (Inl e, w2)
                  | (Inr found, w2) \<Rightarrow>
                      if found then unpack_and_link pkg_name w2 else (Inr False, w2))))"

subsection \<open>remove_package\<close>

definition remove_package :: "string \<Rightarrow> world \<Rightarrow> (exn + bool) \<times> world" where
  "remove_package pkg_name w =
     (if parsed (local_hdb w) = None then (Inr False, w)
      else
        (case local_api w ''check'' ''INSTALLED'' pkg_name ''0'' of
           (Inl e, w1) \<Rightarrow> (Inl e, w1)
         | (Inr installed, w1) \<Rightarrow>
             if \<not> truthy installed then (Inr False, w1)
             else
               (case local_api w1 ''delete'' ''INSTALLED'' pkg_name ''0'' of
                  (Inl e, w2) \<Rightarrow> (Inl e, w2)
                | (Inr r, w2) \<Rightarrow>
                    (case (if pkg_name \<noteq> '''' then rmtree pkg_name (share_hkg w2)
                           else Inr (share_hkg w2)) of
                       Inl e \<Rightarrow> (Inl e, w2)
                     | Inr share1 \<Rightarrow>
                         (let w3 = w2\<lparr>share_hkg := share1\<rparr>;
                              w4 = (if pkg_name @ ''.hkg'' \<in> set (keys (cache_hkg w3))
                                    then w3\<lparr>cache_hkg := AList.delete (pkg_name @ ''.hkg'') (cache_hkg w3)\<rparr>
                                    else w3);
                              w5 = (case map_of (home_bin w4) pkg_name of
                                      Some (Symlink target) \<Rightarrow>
                                        w4\<lparr>home_bin := AList.delete pkg_name (home_bin w4)\<rparr>
                                    | _ \<Rightarrow> w4)
                          in (Inr True, w5))))))"

subsection \<open>update_package\<close>

text \<open>Line 332, one file on its way out of \<^verbatim>\<open>etc/\<close>, and the loop around it.\<close>

definition stage_file :: "string \<Rightarrow> string \<Rightarrow> world \<Rightarrow> exn + world" where
  "stage_file p f w =
     (case lookup (share_hkg w) [p, p, ''etc'', f] of
        None \<Rightarrow> Inl FileNotFoundError
      | Some n \<Rightarrow>
          (case cache_temp w of
             None \<Rightarrow> Inl FileNotFoundError
           | Some t \<Rightarrow>
               (case rename_into n (f @ ''.hkg_old'') t of
                  Inl e \<Rightarrow> Inl e
                | Inr t1 \<Rightarrow>
                    (case alter (\<lambda>es. Inr (AList.delete f es)) [p, p, ''etc''] (share_hkg w) of
                       Inl e \<Rightarrow> Inl e
                     | Inr share1 \<Rightarrow> Inr (w\<lparr>share_hkg := share1, cache_temp := Some t1\<rparr>)))))"

fun stage_files :: "string \<Rightarrow> string list \<Rightarrow> world \<Rightarrow> (exn + unit) \<times> world" where
  "stage_files p [] w = (Inr (), w)"
| "stage_files p (f # pkg_etc_files) w =
     (case stage_file p f w of
        Inl e \<Rightarrow> (Inl e, w)
      | Inr w1 \<Rightarrow> stage_files p pkg_etc_files w1)"

text \<open>The entries of a directory, each under its name with the suffix of a staged file.\<close>

definition tagged_old :: "(string \<times> fs) list \<Rightarrow> (string \<times> fs) list" where
  "tagged_old es = map (\<lambda>(f, n). (f @ ''.hkg_old'', n)) es"

text \<open>Lines 344 and 345, one file on its way back, and the loop around it.\<close>

definition restore_file :: "string \<Rightarrow> string \<Rightarrow> world \<Rightarrow> exn + world" where
  "restore_file p f w =
     (case cache_temp w of
        None \<Rightarrow> Inl FileNotFoundError
      | Some t \<Rightarrow>
          (case map_of t f of
             None \<Rightarrow> Inl FileNotFoundError
           | Some n \<Rightarrow>
               (case alter (rename_into n f) [p, p, ''etc''] (share_hkg w) of
                  Inl e \<Rightarrow> Inl e
                | Inr share1 \<Rightarrow>
                    Inr (w\<lparr>share_hkg := share1, cache_temp := Some (AList.delete f t)\<rparr>))))"

fun restore_files :: "string \<Rightarrow> string list \<Rightarrow> world \<Rightarrow> (exn + unit) \<times> world" where
  "restore_files p [] w = (Inr (), w)"
| "restore_files p (f # pkg_etc_files) w =
     (case restore_file p f w of
        Inl e \<Rightarrow> (Inl e, w)
      | Inr w1 \<Rightarrow> restore_files p pkg_etc_files w1)"

text \<open>\<^verbatim>\<open>os.makedirs('~/.cache/hkg/temp', exist_ok=True)\<close>\<close>

definition makedirs_temp :: "world \<Rightarrow> world" where
  "makedirs_temp w = (case cache_temp w of None \<Rightarrow> w\<lparr>cache_temp := Some []\<rparr> | Some t \<Rightarrow> w)"

text \<open>
  Lines 321 to 347: the package \<open>p\<close> is replaced by the one source \<open>s\<close> serves. The
  flag \<open>post_update_cleanup\<close> is carried along with the state.
\<close>

definition replace_package ::
  "net \<Rightarrow> bool \<Rightarrow> string \<Rightarrow> string \<Rightarrow> bool \<times> world \<Rightarrow> (exn + unit) \<times> bool \<times> world" where
  "replace_package requests_get no_preserve_flag p s st =
     (case st of (post_update_cleanup, w) \<Rightarrow>
      (case listdir (lookup (share_hkg w) [p, p, ''etc'']) of
         Inl e \<Rightarrow> (Inl e, post_update_cleanup, w)
       | Inr pkg_etc_files \<Rightarrow>
           (case (if length pkg_etc_files > 0 \<and> no_preserve_flag = False
                  then (case stage_files p pkg_etc_files (makedirs_temp w) of
                          (r, w1) \<Rightarrow> (r, True, w1))
                  else (Inr (), post_update_cleanup, w)) of
              (Inl e, cleanup1, w1) \<Rightarrow> (Inl e, cleanup1, w1)
            | (Inr u, cleanup1, w1) \<Rightarrow>
                (case remove_package p w1 of
                   (Inl e, w2) \<Rightarrow> (Inl e, cleanup1, w2)
                 | (Inr removed, w2) \<Rightarrow>
                     (case install_package requests_get p s w2 of
                        (Inl e, w3) \<Rightarrow> (Inl e, cleanup1, w3)
                      | (Inr installed, w3) \<Rightarrow>
                          if cleanup1 = True then
                            (case listdir (map_option Dir (cache_temp w3)) of
                               Inl e \<Rightarrow> (Inl e, cleanup1, w3)
                             | Inr staged \<Rightarrow>
                                 (case restore_files p staged w3 of
                                    (Inl e, w4) \<Rightarrow> (Inl e, cleanup1, w4)
                                  | (Inr u, w4) \<Rightarrow> (Inr (), cleanup1, w4\<lparr>cache_temp := None\<rparr>)))
                          else (Inr (), cleanup1, w3))))))"

text \<open>The body of the inner loop, for one package and one source.\<close>

definition check_source ::
  "net \<Rightarrow> bool \<Rightarrow> config \<Rightarrow> string \<Rightarrow> string \<Rightarrow> bool \<times> world \<Rightarrow> (exn + unit) \<times> bool \<times> world" where
  "check_source requests_get no_preserve_flag local_pkg_db p s st =
     (case requests_get (s @ ''/packages.hdb'') of
        Inl e \<Rightarrow> if e = ConnectionError then (Inr (), st) else (Inl e, st)
      | Inr remote_db \<Rightarrow>
          (case text_config remote_db of
             Inl e \<Rightarrow> (Inl e, st)
           | Inr remote_pkg_data \<Rightarrow>
               (case get_section remote_pkg_data ''AVAILABLE'' of
                  Inl e \<Rightarrow> (Inl e, st)
                | Inr available \<Rightarrow>
                    if p \<in> set (keys available) then
                      (case get_option remote_pkg_data ''AVAILABLE'' p of
                         Inl e \<Rightarrow> (Inl e, st)
                       | Inr remote_version \<Rightarrow>
                           (case get_option local_pkg_db ''INSTALLED'' p of
                              Inl e \<Rightarrow> (Inl e, st)
                            | Inr local_version \<Rightarrow>
                                if remote_version > local_version
                                then replace_package requests_get no_preserve_flag p s st
                                else (Inr (), st)))
                    else (Inr (), st))))"

fun check_sources ::
  "net \<Rightarrow> bool \<Rightarrow> config \<Rightarrow> string \<Rightarrow> string list \<Rightarrow> bool \<times> world \<Rightarrow> (exn + unit) \<times> bool \<times> world" where
  "check_sources requests_get no_preserve_flag local_pkg_db p [] st = (Inr (), st)"
| "check_sources requests_get no_preserve_flag local_pkg_db p (s # sources) st =
     (case check_source requests_get no_preserve_flag local_pkg_db p s st of
        (Inl e, st1) \<Rightarrow> (Inl e, st1)
      | (Inr u, st1) \<Rightarrow> check_sources requests_get no_preserve_flag local_pkg_db p sources st1)"

fun check_packages ::
  "net \<Rightarrow> bool \<Rightarrow> config \<Rightarrow> string list \<Rightarrow> string list \<Rightarrow> bool \<times> world \<Rightarrow> (exn + unit) \<times> bool \<times> world" where
  "check_packages requests_get no_preserve_flag local_pkg_db sources [] st = (Inr (), st)"
| "check_packages requests_get no_preserve_flag local_pkg_db sources (p # packages_to_check) st =
     (case check_sources requests_get no_preserve_flag local_pkg_db p sources st of
        (Inl e, st1) \<Rightarrow> (Inl e, st1)
      | (Inr u, st1) \<Rightarrow>
          check_packages requests_get no_preserve_flag local_pkg_db sources packages_to_check st1)"

definition update_package :: "net \<Rightarrow> string \<Rightarrow> bool \<Rightarrow> world \<Rightarrow> (exn + bool) \<times> world" where
  "update_package requests_get pkg_name no_preserve_flag w =
     (if parsed (local_hdb w) = None then (Inr False, w)
      else
        (let local_pkg_db = read_config (local_hdb w) in
         case get_section (read_config (settings_conf w)) ''SOURCES'' of
           Inl e \<Rightarrow> (Inl e, w)
         | Inr srcs \<Rightarrow>
             (case (if pkg_name = ''all''
                    then (case get_section local_pkg_db ''INSTALLED'' of
                            Inl e \<Rightarrow> Inl e
                          | Inr installed \<Rightarrow> Inr (keys installed))
                    else Inr [pkg_name]) of
                Inl e \<Rightarrow> (Inl e, w)
              | Inr packages_to_check \<Rightarrow>
                  (case check_packages requests_get no_preserve_flag local_pkg_db (keys srcs)
                          packages_to_check (False, w) of
                     (Inl e, cleanup, w1) \<Rightarrow> (Inl e, w1)
                   | (Inr u, cleanup, w1) \<Rightarrow> (Inr True, w1)))))"

subsection \<open>Sample data\<close>

text \<open>
  A network that serves the listed URLs and cannot reach any other, a package tree for
  \<^verbatim>\<open>spam\<close>, and two home directories: one with nothing installed and one with
  \<^verbatim>\<open>spam\<close> 1.0 installed and two files in its \<^verbatim>\<open>etc/\<close>.
\<close>

definition serve :: "(string \<times> response) list \<Rightarrow> net" where
  "serve table url =
     (case map_of table url of None \<Rightarrow> Inl RequestsConnectionError | Some r \<Rightarrow> Inr r)"

definition spam_tree :: "string \<Rightarrow> (string \<times> fs) list \<Rightarrow> (string \<times> fs) list" where
  "spam_tree version etc_files =
     [(''spam'',
       Dir [(''metadata'', File (Conf [(''METADATA'', [(''name'', ''spam''), (''version'', version)])])),
            (''spam'', Dir [(''etc'', Dir etc_files), (''lib'', Dir []),
                            (''spam.sh'', File (Raw ''echo spam''))])])]"

definition up_table :: "(string \<times> response) list" where
  "up_table =
     [(''http://up/packages.hdb'',
       \<lparr>text_config = Inr [(''INSTALLED'', []), (''AVAILABLE'', [(''spam'', ''1.2'')])],
        content_tar = None\<rparr>),
      (''http://up/spam.hkg'',
       \<lparr>text_config = Inl ParsingError,
        content_tar = Some (spam_tree ''1.2'' [(''settings.conf'', File (Raw ''new''))])\<rparr>)]"

definition empty_home :: "string list \<Rightarrow> world" where
  "empty_home sources =
     \<lparr>settings_conf = \<lparr>parsed = Some [(''SOURCES'', map (\<lambda>s. (s, ''enabled'')) sources),
                                       (''OPTIONS'', [])],
                       opened_w = 0\<rparr>,
      local_hdb = \<lparr>parsed = Some [(''INSTALLED'', []), (''AVAILABLE'', [])], opened_w = 0\<rparr>,
      cache_hkg = [],
      cache_temp = None,
      share_hkg = [],
      home_bin = []\<rparr>"

definition spam_home :: world where
  "spam_home =
     \<lparr>settings_conf = \<lparr>parsed = Some [(''SOURCES'', [(''http://up'', ''enabled'')]), (''OPTIONS'', [])],
                       opened_w = 0\<rparr>,
      local_hdb = \<lparr>parsed = Some [(''INSTALLED'', [(''spam'', ''1.0'')]), (''AVAILABLE'', [])],
                   opened_w = 0\<rparr>,
      cache_hkg = [],
      cache_temp = None,
      share_hkg = spam_tree ''1.0'' [(''settings.conf'', File (Raw ''mine'')),
                                     (''extra.conf'', File (Raw ''more''))],
      home_bin = [(''spam'', Symlink [''spam'', ''spam'', ''spam.sh''])]\<rparr>"

section \<open>Properties\<close>

subsection \<open>The package record store\<close>

lemma member_keys_iff: "k \<in> set (keys d) \<longleftrightarrow> k \<in> fst ` set d"
  by (simp add: keys_def)

text \<open>
  Values without \<^verbatim>\<open>%\<close> pass the check made when a value is set, and a plain name is
  filed as it is.
\<close>

lemma drop_escaped_id: "CHR ''%'' \<notin> set s \<Longrightarrow> drop_escaped s = s"
  by (induction s rule: drop_escaped.induct) auto

lemma drop_keys_id: "CHR ''%'' \<notin> set s \<Longrightarrow> drop_keys s = s"
proof (induction s)
  case Nil
  show ?case by (simp add: drop_keys.simps)
next
  case (Cons c s)
  then have "c \<noteq> CHR ''%''" and "drop_keys s = s" by auto
  then show ?case by (simp add: drop_keys.simps)
qed

lemma no_percent_is_accepted: "CHR ''%'' \<notin> set v \<Longrightarrow> before_set_accepts v"
  by (simp add: before_set_accepts_def drop_escaped_id drop_keys_id)

lemma plain_value_is_accepted: "plain_value v \<Longrightarrow> before_set_accepts v"
proof (rule no_percent_is_accepted)
  assume "plain_value v"
  then have "set v \<subseteq> set (ascii_lowercase @ ascii_uppercase @ ascii_digits @ ''.-_'')"
    by (auto simp: plain_value_def list_all_iff)
  moreover have "CHR ''%'' \<notin> set (ascii_lowercase @ ascii_uppercase @ ascii_digits @ ''.-_'')"
    by (simp add: ascii_lowercase_def ascii_uppercase_def ascii_digits_def)
  ultimately show "CHR ''%'' \<notin> set v" by blast
qed

lemma lower_char_id: "c \<notin> set ascii_uppercase \<Longrightarrow> lower_char c = c"
proof -
  assume "c \<notin> set ascii_uppercase"
  moreover have "length ascii_uppercase = length ascii_lowercase"
    by (simp add: ascii_uppercase_def ascii_lowercase_def)
  ultimately have "map_of (zip ascii_uppercase ascii_lowercase) c = None"
    by (simp add: map_of_zip_is_None)
  then show ?thesis by (simp add: lower_char_def)
qed

lemma plain_char_is_no_capital:
  "c \<in> set (ascii_lowercase @ ascii_digits @ ''.-_'') \<Longrightarrow> c \<notin> set ascii_uppercase"
  by (auto simp: ascii_lowercase_def ascii_digits_def ascii_uppercase_def)

lemma plain_name_is_filed_unchanged: "plain_name k \<Longrightarrow> optionxform k = k"
proof -
  assume "plain_name k"
  then have "\<forall>c \<in> set k. lower_char c = c"
    using plain_char_is_no_capital lower_char_id by (auto simp: plain_name_def list_all_iff)
  then show ?thesis by (simp add: optionxform_def str_lower_def map_idI)
qed

text \<open>
  Deleting a name that is its own lower-case form and is absent from the section, with a
  version string that passes the check on assignment, reports success and leaves the
  store as it was. The section has to exist in the store.
\<close>

lemma delete_of_unfiled_name:
  assumes "map_of (read_config db) db_section = Some sec"
    and "db_pkgname \<notin> set (keys sec)"
    and "str_isascii db_pkgname"
    and "optionxform db_pkgname = db_pkgname"
    and "before_set_accepts db_pkgver"
  shows "fst (package_database_api db ''delete'' db_section db_pkgname db_pkgver) = Inr (PyBool True)
    \<and> read_config (snd (package_database_api db ''delete'' db_section db_pkgname db_pkgver))
        = read_config db
    \<and> get_section (read_config (snd (package_database_api db ''delete'' db_section db_pkgname db_pkgver)))
        db_section = Inr sec"
proof -
  let ?k = "optionxform db_pkgname"
  let ?sec1 = "AList.update ?k db_pkgver sec"
  let ?cfg1 = "AList.update db_section ?sec1 (read_config db)"
  from assms(2,4) have absent: "?k \<notin> fst ` set sec"
    by (simp add: member_keys_iff)
  have set1: "set_option (read_config db) db_section db_pkgname db_pkgver = Inr ?cfg1"
    using assms(1,5) by (simp add: set_option_def)
  have look1: "map_of ?cfg1 db_section = Some ?sec1"
    by (simp add: update_conv')
  have present: "?k \<in> set (keys ?sec1)"
    by (simp add: member_keys_iff dom_update)
  have undone: "AList.delete ?k ?sec1 = sec"
    using absent by (simp add: delete_update_same delete_id)
  have del1: "del_option ?cfg1 db_section db_pkgname = Inr (read_config db)"
    using look1 present undone assms(1)
    by (simp add: del_option_def update_triv)
  show ?thesis
    using set1 del1 assms(1)
    by (simp add: package_database_api_def Let_def read_config_def write_config_def open_w_def
        get_section_def)
qed

text \<open>
  C7. Deleting a name that is absent from the section is meant to report success and to
  leave the section as it was. For the name \<^verbatim>\<open>Spam\<close> and a section that holds
  \<^verbatim>\<open>spam\<close>, the \<^verbatim>\<open>check\<close> action answers that the name is absent, and the \<^verbatim>\<open>delete\<close>
  action reports success and removes the entry \<^verbatim>\<open>spam\<close>.
\<close>

theorem delete_of_absent_name_removes_entry:
  "package_database_api
     \<lparr>parsed = Some [(''INSTALLED'', []), (''AVAILABLE'', [(''spam'', ''1.0'')])], opened_w = 0\<rparr>
     ''check'' ''AVAILABLE'' ''Spam'' ''0''
     = (Inr (PyBool False),
        \<lparr>parsed = Some [(''INSTALLED'', []), (''AVAILABLE'', [(''spam'', ''1.0'')])], opened_w = 0\<rparr>)
   \<and> package_database_api
     \<lparr>parsed = Some [(''INSTALLED'', []), (''AVAILABLE'', [(''spam'', ''1.0'')])], opened_w = 0\<rparr>
     ''delete'' ''AVAILABLE'' ''Spam'' ''0''
     = (Inr (PyBool True),
        \<lparr>parsed = Some [(''INSTALLED'', []), (''AVAILABLE'', [])], opened_w = 1\<rparr>)"
  by code_simp

text \<open>
  C10. The actions \<^verbatim>\<open>check\<close>, \<^verbatim>\<open>version\<close> and \<^verbatim>\<open>list\<close> never open the store for
  writing and leave its contents as they are, whatever the section, name and version
  given, and also when they raise.
\<close>

theorem read_only_actions_leave_store:
  assumes "db_action \<in> {''check'', ''version'', ''list''}"
  shows "snd (package_database_api db db_action db_section db_pkgname db_pkgver) = db
    \<and> opened_w (snd (package_database_api db db_action db_section db_pkgname db_pkgver)) = opened_w db
    \<and> parsed (snd (package_database_api db db_action db_section db_pkgname db_pkgver)) = parsed db"
proof -
  have "snd (package_database_api db db_action db_section db_pkgname db_pkgver) = db"
    using assms
    by (auto simp add: package_database_api_def Let_def split: sum.splits)
  then show ?thesis by simp
qed

theorem read_only_actions_leave_store_witness:
  "snd (package_database_api
          \<lparr>parsed = Some [(''INSTALLED'', [(''spam'', ''1.0'')]), (''AVAILABLE'', [])], opened_w = 3\<rparr>
          ''version'' ''INSTALLED'' ''spam'' ''0'')
     = \<lparr>parsed = Some [(''INSTALLED'', [(''spam'', ''1.0'')]), (''AVAILABLE'', [])], opened_w = 3\<rparr>"
proof -
  have h: "''version'' \<in> {''check'', ''version'', ''list''}" by simp
  show ?thesis
    using read_only_actions_leave_store [OF h] by simp
qed

text \<open>
  Every version the pattern admits passes the test of the validator: the test is the
  looser of the two.
\<close>

lemma point_is_no_digit: "str_isdigit d \<Longrightarrow> CHR ''.'' \<notin> set d"
proof
  assume d: "str_isdigit d" and "CHR ''.'' \<in> set d"
  then have "CHR ''.'' \<in> set ascii_digits"
    by (simp add: str_isdigit_def list_all_iff)
  then show False by (simp add: ascii_digits_def)
qed

lemma str_isdigit_append: "str_isdigit a \<Longrightarrow> str_isdigit b \<Longrightarrow> str_isdigit (a @ b)"
  by (simp add: str_isdigit_def)

lemma pattern_is_accepted:
  assumes "spec_version_pattern v"
  shows "str_isdigit (replace_first_dot v)"
proof (cases "str_isdigit v")
  case True
  then show ?thesis
    using point_is_no_digit [OF True] by (simp add: replace_first_dot_def remove1_idem)
next
  case False
  define a where "a = takeWhile (\<lambda>c. c \<noteq> CHR ''.'') v"
  define r where "r = dropWhile (\<lambda>c. c \<noteq> CHR ''.'') v"
  from assms False have da: "str_isdigit a" and rn: "r \<noteq> []" and db: "str_isdigit (tl r)"
    by (simp_all add: spec_version_pattern_def a_def r_def)
  have "hd r = CHR ''.''"
    using rn hd_dropWhile [of "\<lambda>c. c \<noteq> CHR ''.''" v] by (simp add: r_def)
  then obtain b where rb: "r = CHR ''.'' # b" using rn by (cases r) auto
  have "v = a @ r" by (simp add: a_def r_def)
  then have v: "v = a @ CHR ''.'' # b" by (simp only: rb)
  have "remove1 (CHR ''.'') (a @ CHR ''.'' # b) = a @ b"
    using point_is_no_digit [OF da] by (simp add: remove1_append)
  then have "replace_first_dot v = a @ b"
    by (simp only: replace_first_dot_def v)
  moreover have "str_isdigit b" using db rb by simp
  ultimately show ?thesis using da by (simp add: str_isdigit_append)
qed

text \<open>
  C8. The validator is meant to accept a store exactly when it has the two sections, its
  names are lower-case letters and its versions are digits or digits, a point and digits.
  The code accepts the version \<^verbatim>\<open>.5\<close>, which the pattern does not: the test strips the
  first point and asks whether digits remain.
\<close>

theorem validate_package_database_accepts_leading_point:
  "validate_package_database
     \<lparr>parsed = Some [(''INSTALLED'', []), (''AVAILABLE'', [(''spam'', ''.5'')])], opened_w = 0\<rparr>
   \<and> \<not> spec_version_pattern ''.5''"
  by (simp add: validate_package_database_def read_config_def keys_def section_of_def
      str_islower_def str_isalpha_def str_isdigit_def replace_first_dot_def
      spec_version_pattern_def ascii_lowercase_def ascii_uppercase_def ascii_digits_def)

subsection \<open>Source lists\<close>

lemma enabled_is_accepted: "before_set_accepts ''enabled''"
  by code_simp

text \<open>
  C5, as the code has it. \<^verbatim>\<open>add_repo\<close> has no test for a URL that is already listed:
  adding such a URL reports success, sets the entry of the URL to \<^verbatim>\<open>enabled\<close> and adds
  no second entry.
\<close>

theorem add_repo_duplicate_succeeds:
  assumes "map_of (read_config settings) ''SOURCES'' = Some srcs"
    and "has_option (read_config settings) ''SOURCES'' repo_url"
  shows "fst (add_repo settings repo_url) = Inr True
    \<and> get_section (read_config (snd (add_repo settings repo_url))) ''SOURCES''
        = Inr (AList.update (optionxform repo_url) ''enabled'' srcs)
    \<and> keys (AList.update (optionxform repo_url) ''enabled'' srcs) = keys srcs"
proof -
  from assms have mem: "optionxform repo_url \<in> fst ` set srcs"
    by (simp add: has_option_def member_keys_iff)
  have same_keys: "keys (AList.update (optionxform repo_url) ''enabled'' srcs) = keys srcs"
    using mem by (simp add: keys_def update_keys)
  show ?thesis
    using assms(1) same_keys enabled_is_accepted
    by (simp add: add_repo_def Let_def set_option_def read_config_def write_config_def
        open_w_def get_section_def update_conv')
qed

theorem add_repo_duplicate_succeeds_witness:
  "fst (add_repo
          \<lparr>parsed = Some [(''SOURCES'', [(''http://127.0.0.1/tmp/hkg'', ''enabled'')]), (''OPTIONS'', [])],
           opened_w = 0\<rparr>
          ''http://127.0.0.1/tmp/hkg'') = Inr True"
proof -
  let ?f = "\<lparr>parsed = Some [(''SOURCES'', [(''http://127.0.0.1/tmp/hkg'', ''enabled'')]), (''OPTIONS'', [])],
             opened_w = 0\<rparr>"
  have h1: "map_of (read_config ?f) ''SOURCES'' = Some [(''http://127.0.0.1/tmp/hkg'', ''enabled'')]"
    by (simp add: read_config_def)
  have h2: "has_option (read_config ?f) ''SOURCES'' ''http://127.0.0.1/tmp/hkg''"
    by (simp add: read_config_def has_option_def keys_def optionxform_def str_lower_def
        lower_char_def ascii_uppercase_def ascii_lowercase_def)
  show ?thesis
    using add_repo_duplicate_succeeds [OF h1 h2] by simp
qed

text \<open>
  C5, as the specification has it, fails: a second \<^verbatim>\<open>add_repo\<close> of the same URL
  returns \<^verbatim>\<open>True\<close> and leaves the configuration as it was.
\<close>

theorem add_repo_duplicate_counterexample:
  "has_option [(''SOURCES'', [(''http://127.0.0.1/tmp/hkg'', ''enabled'')]), (''OPTIONS'', [])]
     ''SOURCES'' ''http://127.0.0.1/tmp/hkg''
   \<and> add_repo
       \<lparr>parsed = Some [(''SOURCES'', [(''http://127.0.0.1/tmp/hkg'', ''enabled'')]), (''OPTIONS'', [])],
        opened_w = 0\<rparr>
       ''http://127.0.0.1/tmp/hkg''
     = (Inr True,
        \<lparr>parsed = Some [(''SOURCES'', [(''http://127.0.0.1/tmp/hkg'', ''enabled'')]), (''OPTIONS'', [])],
         opened_w = 1\<rparr>)"
  by code_simp

subsection \<open>Source trees\<close>

text \<open>
  When the tree has an inner directory of the name of its root, the validator returns,
  and returns \<^verbatim>\<open>True\<close> exactly for two entries at the top, one of them
  \<^verbatim>\<open>metadata\<close>, and three inside, among them \<^verbatim>\<open>etc\<close> and \<^verbatim>\<open>lib\<close>.
\<close>

lemma validate_source_directory_returns:
  assumes "source_location = Some (Dir es)" and "map_of es base = Some (Dir inner)"
    and "base \<noteq> []" and "base \<noteq> ''.''" and "base \<noteq> ''..''"
  shows "validate_source_directory base source_location
     = Inr (length es = 2 \<and> ''metadata'' \<in> set (keys es)
            \<and> length inner = 3 \<and> ''etc'' \<in> set (keys inner) \<and> ''lib'' \<in> set (keys inner))"
proof -
  have "(base, Dir inner) \<in> set es" using map_of_SomeD [OF assms(2)] .
  then have "fst (base, Dir inner) \<in> fst ` set es" by (rule imageI)
  then have mem: "base \<in> set (map fst es)" by simp
  have l1: "listdir source_location = Inr (map fst es)"
    using assms(1) by (simp add: listdir_def keys_def)
  have l2: "listdir (inner_directory source_location base) = Inr (map fst inner)"
    using assms by (simp add: inner_directory_def listdir_def child_def keys_def)
  show ?thesis
    unfolding validate_source_directory_def l1 l2 using mem by (simp add: keys_def)
qed

text \<open>For the tree \<^verbatim>\<open>/\<close>, \<^verbatim>\<open>.\<close> or \<^verbatim>\<open>..\<close> the validator returns \<^verbatim>\<open>False\<close>.\<close>

lemma validate_source_directory_special_base:
  assumes "source_location = Some (Dir es)"
    and "base = [] \<or> base = ''.'' \<or> base = ''..''"
    and "base \<notin> set (keys es)"
  shows "validate_source_directory base source_location = Inr False"
proof -
  have l1: "listdir source_location = Inr (keys es)"
    using assms(1) by (simp add: listdir_def)
  have "inner_directory source_location base = Some (Dir es)
        \<or> inner_directory source_location base = Some (Dir [])"
    using assms(1,2) by (auto simp: inner_directory_def)
  then obtain inner where l2: "listdir (inner_directory source_location base) = Inr inner"
    by (auto simp: listdir_def)
  show ?thesis
    unfolding validate_source_directory_def l1 l2 using assms(3) by simp
qed

text \<open>
  C9. The validator is meant to answer \<^verbatim>\<open>False\<close> on a tree whose inner directory has
  the wrong name. On such a tree the second \<^verbatim>\<open>os.listdir\<close> raises instead: the
  function does not return.
\<close>

theorem validate_source_directory_wrong_inner_name:
  "validate_source_directory ''spam''
     (Some (Dir [(''metadata'', File (Conf [(''METADATA'', [])])),
                 (''eggs'', Dir [(''etc'', Dir []), (''lib'', Dir []),
                                 (''spam.sh'', File (Raw ''echo''))])]))
   = Inl FileNotFoundError"
  by (simp add: validate_source_directory_def inner_directory_def listdir_def child_def keys_def)

subsection \<open>Repository synchronisation\<close>

text \<open>
  The loop that drops entries raises once the list has become shorter than the bound it
  counts to; when it does complete, it has kept exactly the \<^verbatim>\<open>.hkg\<close> entries.
\<close>

lemma drop_non_hkg_short:
  "length xs < n \<Longrightarrow> i < n \<Longrightarrow> drop_non_hkg i n xs = Inl IndexError"
proof (induction i n xs rule: drop_non_hkg.induct)
  case (1 i n xs)
  show ?case
  proof (cases "i < length xs")
    case False
    then show ?thesis using "1.prems" by (simp add: drop_non_hkg.simps [of i n xs])
  next
    case True
    then have next_in: "Suc i < n" using "1.prems" by simp
    have shorter: "length (remove1 (xs ! i) xs) < n"
      using "1.prems" True by (simp add: length_remove1)
    have a: "last4 (xs ! i) \<noteq> ''.hkg'' \<Longrightarrow>
             drop_non_hkg (Suc i) n (remove1 (xs ! i) xs) = Inl IndexError"
      using "1.IH"(1) [OF "1.prems"(2) True _ shorter next_in] by simp
    have b: "\<not> last4 (xs ! i) \<noteq> ''.hkg'' \<Longrightarrow> drop_non_hkg (Suc i) n xs = Inl IndexError"
      using "1.IH"(2) [OF "1.prems"(2) True _ "1.prems"(1) next_in] by simp
    show ?thesis
      using a b "1.prems" True by (simp add: drop_non_hkg.simps [of i n xs])
  qed
qed

lemma drop_non_hkg_done: "drop_non_hkg n n xs = Inr xs"
  by (simp add: drop_non_hkg.simps [of n n xs])

lemma drop_non_hkg_filter:
  "length xs = n \<Longrightarrow> i \<le> n \<Longrightarrow> list_all is_hkg (take i xs) \<Longrightarrow>
   drop_non_hkg i n xs = Inr ys \<Longrightarrow> ys = filter is_hkg xs"
proof (induction i n xs rule: drop_non_hkg.induct)
  case (1 i n xs)
  show ?case
  proof (cases "i < n")
    case False
    then have "i = n" using "1.prems" by simp
    then have "ys = xs" and "list_all is_hkg xs"
      using "1.prems" by (simp_all add: drop_non_hkg_done)
    then show ?thesis by (simp add: list_all_iff)
  next
    case True
    then have inl: "i < length xs" using "1.prems" by simp
    show ?thesis
    proof (cases "last4 (xs ! i) \<noteq> ''.hkg''")
      case False
      then have hk: "is_hkg (xs ! i)" by (simp add: is_hkg_def)
      have pre: "list_all is_hkg (take (Suc i) xs)"
        using "1.prems"(3) hk inl by (simp add: take_Suc_conv_app_nth)
      have run: "drop_non_hkg (Suc i) n xs = Inr ys"
        using "1.prems"(4) True inl False by (simp add: drop_non_hkg.simps [of i n xs])
      show ?thesis
        using "1.IH"(2) [OF True inl False "1.prems"(1) _ pre run] True by simp
    next
      case nh: True
      have run: "drop_non_hkg (Suc i) n (remove1 (xs ! i) xs) = Inr ys"
        using "1.prems"(4) True inl nh by (simp add: drop_non_hkg.simps [of i n xs])
      have shorter: "length (remove1 (xs ! i) xs) < n"
        using "1.prems"(1) inl by (simp add: length_remove1)
      have last_step: "Suc i = n"
      proof (rule ccontr)
        assume "Suc i \<noteq> n"
        then have "Suc i < n" using True by simp
        from drop_non_hkg_short [OF shorter this] run show False by simp
      qed
      then have ys: "ys = remove1 (xs ! i) xs"
        using run by (simp add: drop_non_hkg_done)
      have split: "xs = take i xs @ [xs ! i]"
        using last_step "1.prems"(1) inl
        by (metis Suc_eq_plus1 take_Suc_conv_app_nth take_all order_refl)
      have nothk: "\<not> is_hkg (xs ! i)" using nh by (simp add: is_hkg_def)
      have notin: "xs ! i \<notin> set (take i xs)"
        using "1.prems"(3) nothk by (auto simp: list_all_iff)
      have r: "remove1 (xs ! i) (take i xs @ [xs ! i]) = take i xs"
        using notin by (simp add: remove1_append)
      have f: "filter is_hkg (take i xs @ [xs ! i]) = take i xs"
        using "1.prems"(3) nothk by (simp add: list_all_iff)
      show ?thesis using ys split r f by metis
    qed
  qed
qed

lemma drop_non_hkg_keeps_archives:
  "drop_non_hkg 0 (length xs) xs = Inr ys \<Longrightarrow> ys = filter is_hkg xs"
  using drop_non_hkg_filter [of xs "length xs" 0 ys] by simp

text \<open>
  C4. The scan is meant to keep every \<^verbatim>\<open>.hkg\<close> entry and drop every other one. With
  an entry that is not an archive anywhere but in the last place, the loop that drops
  entries runs past the end of the list it has shortened: \<^verbatim>\<open>update_repo\<close> raises
  \<^verbatim>\<open>IndexError\<close>, reads no archive and leaves the store untouched.
\<close>

theorem update_repo_scan_index_error:
  "update_repo
     \<lparr>listing = [''README'', ''spam.hkg'', ''packages.hdb''],
      packages_hdb = \<lparr>parsed = Some [(''INSTALLED'', []), (''AVAILABLE'', [])], opened_w = 0\<rparr>,
      tarfiles = [(''spam.hkg'',
                   [(''./spam/metadata'', Inr [(''METADATA'', [(''version'', ''1.0'')])])])]\<rparr>
   = (Inl IndexError,
      \<lparr>listing = [''README'', ''spam.hkg'', ''packages.hdb''],
       packages_hdb = \<lparr>parsed = Some [(''INSTALLED'', []), (''AVAILABLE'', [])], opened_w = 0\<rparr>,
       tarfiles = [(''spam.hkg'',
                    [(''./spam/metadata'', Inr [(''METADATA'', [(''version'', ''1.0'')])])])]\<rparr>)"
  by code_simp

text \<open>
  The store operations on a section that exists, the two reconciling loops, and the
  second run. For a repository whose archives bear plain names and plain versions, and a
  store whose \<^verbatim>\<open>AVAILABLE\<close> keys are as configparser reads them, a run that returns
  leaves a state on which the next run changes nothing and opens the store for writing
  not once.
\<close>

lemma member_keys_map_of: "k \<in> set (keys al) \<longleftrightarrow> map_of al k \<noteq> None"
  by (simp add: keys_def map_of_eq_None_iff)

lemma api_check:
  "map_of (read_config db) sec = Some av \<Longrightarrow>
   package_database_api db ''check'' sec i v = (Inr (PyBool (i \<in> set (keys av))), db)"
  by (simp add: package_database_api_def get_section_def)

lemma api_version:
  "map_of (read_config db) sec = Some av \<Longrightarrow> map_of av (optionxform i) = Some s \<Longrightarrow>
   package_database_api db ''version'' sec i v = (Inr (PyStr s), db)"
  by (simp add: package_database_api_def get_option_def)

lemma api_create:
  "map_of (read_config db) sec = Some av \<Longrightarrow> before_set_accepts v \<Longrightarrow>
   package_database_api db ''create'' sec i v
     = (Inr (PyBool True),
        db\<lparr>parsed := Some (AList.update sec (AList.update (optionxform i) v av) (read_config db)),
           opened_w := Suc (opened_w db)\<rparr>)"
  by (simp add: package_database_api_def set_option_def write_config_def open_w_def)

lemma api_update:
  "map_of (read_config db) sec = Some av \<Longrightarrow> before_set_accepts v \<Longrightarrow>
   package_database_api db ''update'' sec i v
     = (Inr (PyBool True),
        db\<lparr>parsed := Some (AList.update sec (AList.update (optionxform i) v av) (read_config db)),
           opened_w := Suc (opened_w db)\<rparr>)"
  by (simp add: package_database_api_def set_option_def write_config_def open_w_def)

lemma api_delete:
  assumes "map_of (read_config db) sec = Some av" and "before_set_accepts v"
  shows "package_database_api db ''delete'' sec i v
     = (Inr (PyBool True),
        db\<lparr>parsed := Some (AList.update sec (AList.delete (optionxform i) av) (read_config db)),
           opened_w := Suc (opened_w db)\<rparr>)"
proof -
  let ?k = "optionxform i"
  let ?av1 = "AList.update ?k v av"
  let ?cfg1 = "AList.update sec ?av1 (read_config db)"
  have s1: "set_option (read_config db) sec i v = Inr ?cfg1"
    using assms by (simp add: set_option_def)
  have l1: "map_of ?cfg1 sec = Some ?av1" by (simp add: update_conv')
  have m1: "?k \<in> set (keys ?av1)" by (simp add: keys_def dom_update)
  have d1: "del_option ?cfg1 sec i = Inr (AList.update sec (AList.delete ?k av) (read_config db))"
    using l1 m1 by (simp add: del_option_def delete_update_same)
  show ?thesis
    using s1 d1 by (simp add: package_database_api_def write_config_def open_w_def)
qed

lemma read_written:
  "read_config (db\<lparr>parsed := Some c, opened_w := n\<rparr>) = c"
  by (simp add: read_config_def)

lemma settled_update_other:
  "k \<noteq> j \<Longrightarrow> settled d (AList.update j v av) k = settled d av k"
  by (simp add: settled_def update_conv')

lemma settled_update_same:
  "map_of d k = Some v \<Longrightarrow> settled d (AList.update k v av) k"
  by (simp add: settled_def update_conv')

lemma add_or_update_idle:
  assumes "map_of (read_config db) ''AVAILABLE'' = Some av"
    and "\<forall>k \<in> set ks. optionxform k = k \<and> settled d av k"
  shows "add_or_update d ks db = (Inr (), db)"
  using assms(2)
proof (induction ks)
  case Nil
  show ?case by simp
next
  case (Cons k ks)
  then have norm: "optionxform k = k" and st: "settled d av k" by simp_all
  from st obtain v s where v: "map_of d k = Some v" and s: "map_of av k = Some s"
    and le: "\<not> v > s"
    by (auto simp: settled_def split: option.splits)
  have mem: "k \<in> set (keys av)" using s by (simp add: member_keys_map_of)
  have c: "package_database_api db ''check'' ''AVAILABLE'' k ''-1'' = (Inr (PyBool True), db)"
    using api_check [OF assms(1), of k "''-1''"] mem by simp
  have g: "dict_get d k = Inr v" using v by (simp add: dict_get_def)
  have ver: "package_database_api db ''version'' ''AVAILABLE'' k ''-1'' = (Inr (PyStr s), db)"
    using api_version [OF assms(1), of k s "''-1''"] s norm by simp
  have cmp: "str_gt v (PyStr s) = Inr False" using le by (simp add: str_gt_def)
  have rest: "add_or_update d ks db = (Inr (), db)" using Cons by simp
  show ?case using c g ver cmp rest by (simp add: truthy_def)
qed

lemma add_or_update_step:
  assumes store: "map_of (read_config db) ''AVAILABLE'' = Some av"
    and norm: "optionxform k = k"
    and v: "map_of d k = Some v"
    and acc: "before_set_accepts v"
  shows "\<exists>db1 av1. add_or_update d (k # ks) db = add_or_update d ks db1
      \<and> map_of (read_config db1) ''AVAILABLE'' = Some av1
      \<and> settled d av1 k
      \<and> (\<forall>j. settled d av j \<longrightarrow> settled d av1 j)
      \<and> (\<forall>j. map_of av1 j \<noteq> None \<longrightarrow> map_of av j \<noteq> None \<or> j = k)"
proof -
  let ?av1 = "AList.update k v av"
  let ?db1 = "db\<lparr>parsed := Some (AList.update ''AVAILABLE'' ?av1 (read_config db)),
                 opened_w := Suc (opened_w db)\<rparr>"
  have g: "dict_get d k = Inr v" using v by (simp add: dict_get_def)
  have store1: "map_of (read_config ?db1) ''AVAILABLE'' = Some ?av1"
    by (simp add: read_config_def update_conv')
  have st1: "settled d ?av1 k" using v by (rule settled_update_same)
  have keep1: "\<forall>j. settled d av j \<longrightarrow> settled d ?av1 j"
    using st1 settled_update_other [of _ k d v av] by metis
  have dom1: "\<forall>j. map_of ?av1 j \<noteq> None \<longrightarrow> map_of av j \<noteq> None \<or> j = k"
    by (simp add: update_conv')
  have written: "?thesis" if "add_or_update d (k # ks) db = add_or_update d ks ?db1"
    using that store1 st1 keep1 dom1 by blast
  show ?thesis
  proof (cases "k \<in> set (keys av)")
    case False
    have c: "package_database_api db ''check'' ''AVAILABLE'' k ''-1'' = (Inr (PyBool False), db)"
      using api_check [OF store, of k "''-1''"] False by simp
    have cr: "package_database_api db ''create'' ''AVAILABLE'' k v = (Inr (PyBool True), ?db1)"
      using api_create [OF store acc, of k] norm by simp
    have "add_or_update d (k # ks) db = add_or_update d ks ?db1"
      using c g cr by (simp add: truthy_def)
    then show ?thesis by (rule written)
  next
    case True
    then obtain s where s: "map_of av k = Some s"
      by (auto simp: member_keys_map_of)
    have c: "package_database_api db ''check'' ''AVAILABLE'' k ''-1'' = (Inr (PyBool True), db)"
      using api_check [OF store, of k "''-1''"] True by simp
    have ver: "package_database_api db ''version'' ''AVAILABLE'' k ''-1'' = (Inr (PyStr s), db)"
      using api_version [OF store, of k s "''-1''"] s norm by simp
    show ?thesis
    proof (cases "v > s")
      case True
      have cmp: "str_gt v (PyStr s) = Inr True" using True by (simp add: str_gt_def)
      have up: "package_database_api db ''update'' ''AVAILABLE'' k v = (Inr (PyBool True), ?db1)"
        using api_update [OF store acc, of k] norm by simp
      have "add_or_update d (k # ks) db = add_or_update d ks ?db1"
        using c g ver cmp up by (simp add: truthy_def)
      then show ?thesis by (rule written)
    next
      case False
      have cmp: "str_gt v (PyStr s) = Inr False" using False by (simp add: str_gt_def)
      have run: "add_or_update d (k # ks) db = add_or_update d ks db"
        using c g ver cmp by (simp add: truthy_def)
      have "settled d av k" using v s False by (simp add: settled_def)
      then show ?thesis using run store by blast
    qed
  qed
qed

lemma add_or_update_settles:
  assumes "map_of (read_config db) ''AVAILABLE'' = Some av"
    and "\<forall>k \<in> set ks. optionxform k = k \<and> (\<exists>v. map_of d k = Some v \<and> before_set_accepts v)"
  shows "\<exists>db1 av1. add_or_update d ks db = (Inr (), db1)
      \<and> map_of (read_config db1) ''AVAILABLE'' = Some av1
      \<and> (\<forall>k \<in> set ks. settled d av1 k)
      \<and> (\<forall>j. settled d av j \<longrightarrow> settled d av1 j)
      \<and> (\<forall>j. map_of av1 j \<noteq> None \<longrightarrow> map_of av j \<noteq> None \<or> j \<in> set ks)"
  using assms
proof (induction ks arbitrary: db av)
  case Nil
  then show ?case by simp
next
  case (Cons k ks)
  from Cons.prems(2) obtain v where norm: "optionxform k = k" and v: "map_of d k = Some v"
    and acc: "before_set_accepts v"
    by auto
  from add_or_update_step [OF Cons.prems(1) norm v acc, of ks]
  obtain db1 av1 where step: "add_or_update d (k # ks) db = add_or_update d ks db1"
    and store1: "map_of (read_config db1) ''AVAILABLE'' = Some av1"
    and st1: "settled d av1 k"
    and keep1: "\<forall>j. settled d av j \<longrightarrow> settled d av1 j"
    and dom1: "\<forall>j. map_of av1 j \<noteq> None \<longrightarrow> map_of av j \<noteq> None \<or> j = k"
    by blast
  have rest: "\<forall>k \<in> set ks. optionxform k = k \<and> (\<exists>v. map_of d k = Some v \<and> before_set_accepts v)"
    using Cons.prems(2) by simp
  from Cons.IH [OF store1 rest]
  obtain db2 av2 where run: "add_or_update d ks db1 = (Inr (), db2)"
    and store2: "map_of (read_config db2) ''AVAILABLE'' = Some av2"
    and st2: "\<forall>k \<in> set ks. settled d av2 k"
    and keep2: "\<forall>j. settled d av1 j \<longrightarrow> settled d av2 j"
    and dom2: "\<forall>j. map_of av2 j \<noteq> None \<longrightarrow> map_of av1 j \<noteq> None \<or> j \<in> set ks"
    by blast
  have a: "add_or_update d (k # ks) db = (Inr (), db2)" using step run by simp
  have b: "\<forall>j \<in> set (k # ks). settled d av2 j" using st1 keep2 st2 by simp
  have c: "\<forall>j. settled d av j \<longrightarrow> settled d av2 j" using keep1 keep2 by blast
  have e: "\<forall>j. map_of av2 j \<noteq> None \<longrightarrow> map_of av j \<noteq> None \<or> j \<in> set (k # ks)"
    using dom1 dom2 by (metis list.set_intros(1) list.set_intros(2))
  show ?case using a store2 b c e by blast
qed

lemma map_of_prune:
  "map_of (prune d stale av) k
     = (if k \<in> set stale \<and> k \<notin> set (keys d) then None else map_of av k)"
  unfolding prune_def
  by (induction stale arbitrary: av) (auto simp: delete_conv')

lemma minus_one_is_accepted: "before_set_accepts ''-1''"
  by code_simp

lemma delete_stale_run:
  assumes "map_of (read_config db) ''AVAILABLE'' = Some av"
    and "\<forall>i \<in> set stale. optionxform i = i"
  shows "\<exists>db1. delete_stale d stale db = (Inr (), db1)
      \<and> map_of (read_config db1) ''AVAILABLE'' = Some (prune d stale av)"
  using assms
proof (induction stale arbitrary: db av)
  case Nil
  then show ?case by (simp add: prune_def)
next
  case (Cons i stale)
  have norm: "optionxform i = i" using Cons.prems(2) by simp
  have rest: "\<forall>j \<in> set stale. optionxform j = j" using Cons.prems(2) by simp
  show ?case
  proof (cases "i \<in> set (keys d)")
    case True
    from Cons.IH [OF Cons.prems(1) rest] True show ?thesis by (simp add: prune_def)
  next
    case False
    let ?db1 = "db\<lparr>parsed := Some (AList.update ''AVAILABLE'' (AList.delete i av) (read_config db)),
                   opened_w := Suc (opened_w db)\<rparr>"
    have del: "package_database_api db ''delete'' ''AVAILABLE'' i ''-1'' = (Inr (PyBool True), ?db1)"
      using api_delete [OF Cons.prems(1) minus_one_is_accepted, of i] norm by simp
    have store1: "map_of (read_config ?db1) ''AVAILABLE'' = Some (AList.delete i av)"
      by (simp add: read_config_def update_conv')
    from Cons.IH [OF store1 rest] obtain db2 where
      run: "delete_stale d stale ?db1 = (Inr (), db2)"
      and store2: "map_of (read_config db2) ''AVAILABLE'' = Some (prune d stale (AList.delete i av))"
      by blast
    have "delete_stale d (i # stale) db = (Inr (), db2)" using False del run by simp
    moreover have "prune d (i # stale) av = prune d stale (AList.delete i av)"
      using False by (simp add: prune_def)
    ultimately show ?thesis using store2 by simp
  qed
qed

lemma delete_stale_idle:
  "\<forall>i \<in> set stale. i \<in> set (keys d) \<Longrightarrow> delete_stale d stale db = (Inr (), db)"
  by (induction stale) simp_all

lemma settled_cong:
  "map_of av2 k = map_of av1 k \<Longrightarrow> settled d av2 k = settled d av1 k"
  by (simp add: settled_def)

lemma reconcile_twice:
  assumes store: "map_of (read_config db) ''AVAILABLE'' = Some av"
    and normd: "\<forall>k \<in> set (keys d). optionxform k = k"
    and accd: "\<forall>k v. map_of d k = Some v \<longrightarrow> before_set_accepts v"
    and normav: "\<forall>k \<in> set (keys av). optionxform k = k"
  shows "\<exists>db1 av1 db2 av2.
           add_or_update d (keys d) db = (Inr (), db1)
         \<and> get_section (read_config db1) ''AVAILABLE'' = Inr av1
         \<and> delete_stale d (keys av1) db1 = (Inr (), db2)
         \<and> add_or_update d (keys d) db2 = (Inr (), db2)
         \<and> get_section (read_config db2) ''AVAILABLE'' = Inr av2
         \<and> delete_stale d (keys av2) db2 = (Inr (), db2)"
proof -
  have pre: "\<forall>k \<in> set (keys d). optionxform k = k \<and> (\<exists>v. map_of d k = Some v \<and> before_set_accepts v)"
  proof
    fix k assume k: "k \<in> set (keys d)"
    then obtain v where v: "map_of d k = Some v" by (auto simp: member_keys_map_of)
    then have "before_set_accepts v" using accd by blast
    then show "optionxform k = k \<and> (\<exists>v. map_of d k = Some v \<and> before_set_accepts v)"
      using normd k v by blast
  qed
  from add_or_update_settles [OF store pre]
  obtain db1 av1 where run1: "add_or_update d (keys d) db = (Inr (), db1)"
    and store1: "map_of (read_config db1) ''AVAILABLE'' = Some av1"
    and st1: "\<forall>k \<in> set (keys d). settled d av1 k"
    and dom1: "\<forall>j. map_of av1 j \<noteq> None \<longrightarrow> map_of av j \<noteq> None \<or> j \<in> set (keys d)"
    by blast
  have norm1: "\<forall>i \<in> set (keys av1). optionxform i = i"
  proof
    fix i assume "i \<in> set (keys av1)"
    then have "map_of av1 i \<noteq> None" by (simp add: member_keys_map_of)
    with dom1 have "map_of av i \<noteq> None \<or> i \<in> set (keys d)" by blast
    then have "i \<in> set (keys av) \<or> i \<in> set (keys d)" by (simp add: member_keys_map_of)
    then show "optionxform i = i" using normd normav by blast
  qed
  from delete_stale_run [OF store1 norm1, of d]
  obtain db2 where run2: "delete_stale d (keys av1) db1 = (Inr (), db2)"
    and store2: "map_of (read_config db2) ''AVAILABLE'' = Some (prune d (keys av1) av1)"
    by blast
  let ?av2 = "prune d (keys av1) av1"
  have same: "\<forall>k \<in> set (keys d). map_of ?av2 k = map_of av1 k"
    by (simp add: map_of_prune)
  have st2: "\<forall>k \<in> set (keys d). optionxform k = k \<and> settled d ?av2 k"
    using st1 same normd settled_cong [of ?av2 _ av1 d] by simp
  have idle1: "add_or_update d (keys d) db2 = (Inr (), db2)"
    using add_or_update_idle [OF store2 st2] .
  have known: "\<forall>i \<in> set (keys ?av2). i \<in> set (keys d)"
  proof
    fix i assume "i \<in> set (keys ?av2)"
    then have "map_of ?av2 i \<noteq> None" by (simp add: member_keys_map_of)
    then have "\<not> (i \<in> set (keys av1) \<and> i \<notin> set (keys d))" and "map_of av1 i \<noteq> None"
      by (auto simp: map_of_prune split: if_splits)
    then show "i \<in> set (keys d)" by (simp add: member_keys_map_of)
  qed
  have idle2: "delete_stale d (keys ?av2) db2 = (Inr (), db2)"
    using delete_stale_idle [OF known] .
  have g1: "get_section (read_config db1) ''AVAILABLE'' = Inr av1"
    using store1 by (simp add: get_section_def)
  have g2: "get_section (read_config db2) ''AVAILABLE'' = Inr ?av2"
    using store2 by (simp add: get_section_def)
  show ?thesis using run1 g1 run2 idle1 g2 idle2 by blast
qed

lemma read_versions_keys:
  "read_versions tars l d0 = Inr d \<Longrightarrow> set (keys d) \<subseteq> set (keys d0) \<union> drop_last4 ` set l"
proof (induction l arbitrary: d0)
  case Nil
  then show ?case by simp
next
  case (Cons i l)
  then obtain v where v: "archive_version tars i = Inr v"
    and rest: "read_versions tars l (AList.update (drop_last4 i) v d0) = Inr d"
    by (auto split: sum.splits)
  have "set (keys (AList.update (drop_last4 i) v d0)) = insert (drop_last4 i) (set (keys d0))"
    by (simp add: keys_def dom_update)
  with Cons.IH [OF rest] show ?case by auto
qed

lemma read_versions_values:
  "read_versions tars l d0 = Inr d \<Longrightarrow> map_of d k = Some v \<Longrightarrow>
   map_of d0 k = Some v \<or> (\<exists>i \<in> set l. archive_version tars i = Inr v)"
proof (induction l arbitrary: d0)
  case Nil
  then show ?case by simp
next
  case (Cons i l)
  then obtain v1 where v1: "archive_version tars i = Inr v1"
    and rest: "read_versions tars l (AList.update (drop_last4 i) v1 d0) = Inr d"
    by (auto split: sum.splits)
  from Cons.IH [OF rest Cons.prems(2)]
  have "map_of (AList.update (drop_last4 i) v1 d0) k = Some v
        \<or> (\<exists>j \<in> set l. archive_version tars j = Inr v)" .
  then show ?case
  proof
    assume "map_of (AList.update (drop_last4 i) v1 d0) k = Some v"
    then have "(k = drop_last4 i \<and> v = v1) \<or> map_of d0 k = Some v"
      by (auto simp: update_conv' split: if_splits)
    then show ?thesis using v1 by auto
  next
    assume "\<exists>j \<in> set l. archive_version tars j = Inr v"
    then show ?thesis by auto
  qed
qed

lemma update_repo_idempotent:
  assumes run: "update_repo r = (Inr True, r1)"
    and names: "\<forall>i \<in> set (listing r). is_hkg i \<longrightarrow> plain_name (drop_last4 i)"
    and versions: "\<forall>i \<in> set (listing r). \<forall>v. archive_version (tarfiles r) i = Inr v
                     \<longrightarrow> plain_value v"
    and store: "map_of (read_config (packages_hdb r)) ''AVAILABLE'' = Some av"
    and normav: "\<forall>k \<in> set (keys av). optionxform k = k"
  shows "update_repo r1 = (Inr True, r1)"
proof -
  have ex: "parsed (packages_hdb r) \<noteq> None"
    using store by (auto simp: read_config_def split: option.splits)
  obtain l0 where l0: "list_remove ''packages.hdb'' (listing r) = Inr l0"
  proof (cases "list_remove ''packages.hdb'' (listing r)")
    case (Inl e)
    then have "update_repo r = (Inl e, r)" using ex by (simp add: update_repo_def)
    with run show ?thesis by simp
  next
    case (Inr x)
    then show ?thesis using that by blast
  qed
  obtain l where l: "(if 0 < length l0 then drop_non_hkg 0 (length l0) l0 else Inr l0) = Inr l"
  proof (cases "if 0 < length l0 then drop_non_hkg 0 (length l0) l0 else Inr l0")
    case (Inl e)
    then have "update_repo r = (Inl e, r)" using ex l0 by (simp add: update_repo_def)
    with run show ?thesis by simp
  next
    case (Inr x)
    then show ?thesis using that by blast
  qed
  obtain d where d: "read_versions (tarfiles r) l [] = Inr d"
  proof (cases "read_versions (tarfiles r) l []")
    case (Inl e)
    then have "update_repo r = (Inl e, r)" using ex l0 l by (simp add: update_repo_def)
    with run show ?thesis by simp
  next
    case (Inr x)
    then show ?thesis using that by blast
  qed
  have "set l0 \<subseteq> set (listing r)"
    using l0 set_remove1_subset [of "''packages.hdb''" "listing r"]
    by (auto simp: list_remove_def split: if_splits)
  moreover have "set l \<subseteq> {i \<in> set l0. is_hkg i}"
  proof (cases "0 < length l0")
    case True
    then have "drop_non_hkg 0 (length l0) l0 = Inr l" using l by simp
    then have "l = filter is_hkg l0" by (rule drop_non_hkg_keeps_archives)
    then show ?thesis by simp
  next
    case False
    then show ?thesis using l by simp
  qed
  ultimately have sub: "set l \<subseteq> {i \<in> set (listing r). is_hkg i}" by blast
  have normd: "\<forall>k \<in> set (keys d). optionxform k = k"
  proof
    fix k assume "k \<in> set (keys d)"
    then have "k \<in> drop_last4 ` set l"
      using read_versions_keys [OF d] by (auto simp: keys_def)
    then have "plain_name k" using sub names by auto
    then show "optionxform k = k" by (rule plain_name_is_filed_unchanged)
  qed
  have accd: "\<forall>k v. map_of d k = Some v \<longrightarrow> before_set_accepts v"
  proof (intro allI impI)
    fix k v assume "map_of d k = Some v"
    from read_versions_values [OF d this]
    obtain i where "i \<in> set l" and "archive_version (tarfiles r) i = Inr v" by auto
    then have "plain_value v" using sub versions by blast
    then show "before_set_accepts v" by (rule plain_value_is_accepted)
  qed
  from reconcile_twice [OF store normd accd normav]
  obtain db1 av1 db2 av2 where
    a1: "add_or_update d (keys d) (packages_hdb r) = (Inr (), db1)"
    and g1: "get_section (read_config db1) ''AVAILABLE'' = Inr av1"
    and s1: "delete_stale d (keys av1) db1 = (Inr (), db2)"
    and a2: "add_or_update d (keys d) db2 = (Inr (), db2)"
    and g2: "get_section (read_config db2) ''AVAILABLE'' = Inr av2"
    and s2: "delete_stale d (keys av2) db2 = (Inr (), db2)"
    by blast
  have first: "update_repo r = (Inr True, r\<lparr>packages_hdb := db2\<rparr>)"
    using ex l0 l d a1 g1 s1 by (simp add: update_repo_def)
  then have r1: "r1 = r\<lparr>packages_hdb := db2\<rparr>" using run by simp
  have ex2: "parsed db2 \<noteq> None"
    using g2 by (auto simp: get_section_def read_config_def split: option.splits)
  have "update_repo (r\<lparr>packages_hdb := db2\<rparr>) = (Inr True, r\<lparr>packages_hdb := db2\<rparr>)"
    using ex2 l0 l d a2 g2 s2 by (simp add: update_repo_def)
  then show ?thesis using r1 by simp
qed

text \<open>
  C6. A second run over an unchanged repository is meant to write nothing. With an
  archive whose name has an upper-case letter the store files the package under the
  lower-cased name, \<^verbatim>\<open>update_repo\<close> looks for the name as it is spelt on disk, and each
  run creates the entry and deletes it again: the second run opens the store for writing
  twice, as the first did.
\<close>

theorem update_repo_second_run_writes_again:
  "update_repo
     \<lparr>listing = [''Spam.hkg'', ''packages.hdb''],
      packages_hdb = \<lparr>parsed = Some [(''INSTALLED'', []), (''AVAILABLE'', [])], opened_w = 0\<rparr>,
      tarfiles = [(''Spam.hkg'',
                   [(''./Spam/metadata'', Inr [(''METADATA'', [(''version'', ''1.0'')])])])]\<rparr>
   = (Inr True,
      \<lparr>listing = [''Spam.hkg'', ''packages.hdb''],
       packages_hdb = \<lparr>parsed = Some [(''INSTALLED'', []), (''AVAILABLE'', [])], opened_w = 2\<rparr>,
       tarfiles = [(''Spam.hkg'',
                    [(''./Spam/metadata'', Inr [(''METADATA'', [(''version'', ''1.0'')])])])]\<rparr>)
   \<and> update_repo
     \<lparr>listing = [''Spam.hkg'', ''packages.hdb''],
      packages_hdb = \<lparr>parsed = Some [(''INSTALLED'', []), (''AVAILABLE'', [])], opened_w = 2\<rparr>,
      tarfiles = [(''Spam.hkg'',
                   [(''./Spam/metadata'', Inr [(''METADATA'', [(''version'', ''1.0'')])])])]\<rparr>
   = (Inr True,
      \<lparr>listing = [''Spam.hkg'', ''packages.hdb''],
       packages_hdb = \<lparr>parsed = Some [(''INSTALLED'', []), (''AVAILABLE'', [])], opened_w = 4\<rparr>,
       tarfiles = [(''Spam.hkg'',
                    [(''./Spam/metadata'', Inr [(''METADATA'', [(''version'', ''1.0'')])])])]\<rparr>)"
  by code_simp

subsection \<open>Install, remove, update\<close>

text \<open>
  The loop over the sources as the handler is written: a source whose fetch raises the
  builtin \<^verbatim>\<open>ConnectionError\<close> is skipped, the loop stops at the first source that lists
  the package and writes that source's archive to the cache, and it ends in its
  \<^verbatim>\<open>else\<close> branch when every source is passed by.
\<close>

lemma find_and_download_skips_builtin:
  "requests_get (s @ ''/packages.hdb'') = Inl ConnectionError \<Longrightarrow>
   find_and_download requests_get pkg_name (s # sources) w
     = find_and_download requests_get pkg_name sources w"
  by simp

lemma find_and_download_passes:
  "lacks requests_get pkg_name s \<Longrightarrow>
   find_and_download requests_get pkg_name (s # sources) w
     = find_and_download requests_get pkg_name sources w"
  by (auto simp: lacks_def split: sum.splits)

lemma find_and_download_first_match:
  assumes "list_all (lacks requests_get pkg_name) before"
    and "requests_get (s @ ''/packages.hdb'') = Inr remote_db"
    and "text_config remote_db = Inr remote_pkg_data"
    and "get_section remote_pkg_data ''AVAILABLE'' = Inr available"
    and "pkg_name \<in> set (keys available)"
    and "requests_get (s @ ''/'' @ pkg_name @ ''.hkg'') = Inr pkg_download"
  shows "find_and_download requests_get pkg_name (before @ s # after) w
     = (Inr True, w\<lparr>cache_hkg := AList.update (pkg_name @ ''.hkg'')
                                     (content_tar pkg_download) (cache_hkg w)\<rparr>)"
  using assms(1)
proof (induction before)
  case Nil
  show ?case using assms(2-6) by simp
next
  case (Cons a before)
  then have "lacks requests_get pkg_name a" and "list_all (lacks requests_get pkg_name) before"
    by simp_all
  then show ?case using Cons.IH find_and_download_passes [of requests_get pkg_name a] by simp
qed

lemma find_and_download_none:
  "list_all (lacks requests_get pkg_name) sources \<Longrightarrow>
   find_and_download requests_get pkg_name sources w = (Inr False, w)"
proof (induction sources)
  case Nil
  show ?case by simp
next
  case (Cons a sources)
  then show ?case using find_and_download_passes [of requests_get pkg_name a] by simp
qed

text \<open>
  C2. A source that cannot be reached is meant to be skipped. \<^verbatim>\<open>requests.get\<close> raises
  its own \<^verbatim>\<open>ConnectionError\<close>, which the handler of the loop, naming the builtin class,
  does not catch: with an unreachable source listed before the one that has the package,
  \<^verbatim>\<open>install_package\<close> raises and nothing is downloaded. From the second source alone the
  same package installs.
\<close>

theorem install_package_unreachable_source_raises:
  "install_package (serve up_table) ''spam'' '''' (empty_home [''http://down'', ''http://up''])
     = (Inl RequestsConnectionError, empty_home [''http://down'', ''http://up''])
   \<and> fst (install_package (serve up_table) ''spam'' '''' (empty_home [''http://up''])) = Inr True"
  by code_simp

text \<open>
  C1. Every operation is meant to end in an outcome, never in an exception. Three inputs
  on which one does not: the version of a package the store does not hold
  (\<^verbatim>\<open>KeyError\<close>); the install of an archive whose inner directory has no \<^verbatim>\<open>etc\<close>
  (\<^verbatim>\<open>ValueError\<close> from \<^verbatim>\<open>bin_target.remove('etc')\<close>); a repository with a
  \<^verbatim>\<open>.hkg\<close> file that is no archive (\<^verbatim>\<open>ReadError\<close> from \<^verbatim>\<open>tarfile.open\<close>).
\<close>

theorem operations_raise:
  "fst (package_database_api
          \<lparr>parsed = Some [(''INSTALLED'', []), (''AVAILABLE'', [])], opened_w = 0\<rparr>
          ''version'' ''INSTALLED'' ''spam'' '''') = Inl KeyError
   \<and> fst (install_package
            (serve [(''http://up/packages.hdb'',
                     \<lparr>text_config = Inr [(''INSTALLED'', []), (''AVAILABLE'', [(''spam'', ''1.2'')])],
                      content_tar = None\<rparr>),
                    (''http://up/spam.hkg'',
                     \<lparr>text_config = Inl ParsingError,
                      content_tar = Some [(''spam'', Dir [(''metadata'', File (Raw '''')),
                                                          (''spam'', Dir [(''spam.sh'', File (Raw ''''))])])]\<rparr>)])
            ''spam'' '''' (empty_home [''http://up''])) = Inl ValueError
   \<and> fst (update_repo
            \<lparr>listing = [''spam.hkg'', ''packages.hdb''],
             packages_hdb = \<lparr>parsed = Some [(''INSTALLED'', []), (''AVAILABLE'', [])], opened_w = 0\<rparr>,
             tarfiles = []\<rparr>) = Inl ReadError"
  by code_simp

text \<open>Paths: reading below a directory, and changing the entries of a directory.\<close>

lemma update_absent_appends: "map_of al k = None \<Longrightarrow> AList.update k v al = al @ [(k, v)]"
  by (induction al) (auto split: if_splits)

lemma lookup_snoc:
  "lookup es (path @ [f]) = (case lookup es path of Some (Dir d) \<Rightarrow> map_of d f | _ \<Rightarrow> None)"
proof (induction path arbitrary: es)
  case Nil
  show ?case by (auto split: option.splits fs.splits)
next
  case (Cons n path)
  show ?case using Cons.IH by (auto split: option.splits fs.splits)
qed

lemma alter_at:
  "lookup es path = Some (Dir d) \<Longrightarrow>
   alter f path es = (case f d of Inl e \<Rightarrow> Inl e | Inr d1 \<Rightarrow> alter (\<lambda>x. Inr d1) path es)"
proof (induction path arbitrary: es)
  case Nil
  then show ?case by (auto split: sum.splits)
next
  case (Cons n path)
  then show ?case by (auto split: option.splits fs.splits sum.splits if_splits)
qed

lemma put_lookup:
  "lookup es path = Some (Dir d) \<Longrightarrow>
   \<exists>es1. alter (\<lambda>x. Inr d1) path es = Inr es1 \<and> lookup es1 path = Some (Dir d1)"
proof (induction path arbitrary: es)
  case Nil
  then show ?case by simp
next
  case (Cons n path)
  then obtain ds where ds: "map_of es n = Some (Dir ds)" "lookup ds path = Some (Dir d)"
    by (auto split: option.splits fs.splits if_splits)
  from Cons.IH [OF ds(2)] obtain ds1 where
    "alter (\<lambda>x. Inr d1) path ds = Inr ds1" "lookup ds1 path = Some (Dir d1)" by blast
  then show ?case using ds by (simp add: update_conv')
qed

lemma alter_lookup:
  assumes "lookup es path = Some (Dir d)" and "f d = Inr d1"
  shows "\<exists>es1. alter f path es = Inr es1 \<and> lookup es1 path = Some (Dir d1)"
  using put_lookup [OF assms(1), of d1] alter_at [OF assms(1), of f] assms(2) by simp

lemma keys_tagged_old: "keys (tagged_old es) = map (\<lambda>f. f @ ''.hkg_old'') (keys es)"
  by (induction es) (auto simp: tagged_old_def keys_def)

lemma map_of_absent: "k \<notin> set (keys al) \<Longrightarrow> map_of al k = None"
  by (simp add: keys_def map_of_eq_None_iff)

lemma stage_files_all:
  assumes "lookup (share_hkg w) [p, p, ''etc''] = Some (Dir (es @ rest))"
    and "distinct (keys (es @ rest))"
    and "cache_temp w = Some t"
    and "\<forall>f \<in> set (keys es). f @ ''.hkg_old'' \<notin> set (keys t)"
  shows "fst (stage_files p (keys es) w) = Inr ()
    \<and> lookup (share_hkg (snd (stage_files p (keys es) w))) [p, p, ''etc''] = Some (Dir rest)
    \<and> cache_temp (snd (stage_files p (keys es) w)) = Some (t @ tagged_old es)"
  using assms
proof (induction es arbitrary: w t)
  case Nil
  then show ?case by (simp add: keys_def tagged_old_def)
next
  case (Cons a es)
  obtain f n where a: "a = (f, n)" by (cases a)
  have src: "lookup (share_hkg w) [p, p, ''etc'', f] = Some n"
    using lookup_snoc [of "share_hkg w" "[p, p, ''etc'']" f] Cons.prems(1) a by simp
  have absent: "map_of t (f @ ''.hkg_old'') = None"
    using Cons.prems(4) a by (intro map_of_absent) (simp add: keys_def)
  have dst: "rename_into n (f @ ''.hkg_old'') t = Inr (t @ [(f @ ''.hkg_old'', n)])"
    using absent by (simp add: rename_into_def update_absent_appends)
  have notin: "f \<notin> fst ` set (es @ rest)"
    using Cons.prems(2) a by (auto simp: keys_def)
  have del: "AList.delete f (a # es @ rest) = es @ rest"
    using notin a by (simp add: delete_id)
  obtain share1 where share1:
    "alter (\<lambda>es. Inr (AList.delete f es)) [p, p, ''etc''] (share_hkg w) = Inr share1"
    "lookup share1 [p, p, ''etc''] = Some (Dir (es @ rest))"
    using alter_lookup [OF Cons.prems(1), of "\<lambda>es. Inr (AList.delete f es)" "es @ rest"] del
    by auto
  let ?w1 = "w\<lparr>share_hkg := share1, cache_temp := Some (t @ [(f @ ''.hkg_old'', n)])\<rparr>"
  have step: "stage_file p f w = Inr ?w1"
    using src dst share1(1) Cons.prems(3) by (simp add: stage_file_def)
  have p1: "lookup (share_hkg ?w1) [p, p, ''etc''] = Some (Dir (es @ rest))"
    using share1(2) by simp
  have p2: "distinct (keys (es @ rest))"
    using Cons.prems(2) by (simp add: keys_def)
  have p3: "cache_temp ?w1 = Some (t @ [(f @ ''.hkg_old'', n)])" by simp
  have p4: "\<forall>g \<in> set (keys es). g @ ''.hkg_old'' \<notin> set (keys (t @ [(f @ ''.hkg_old'', n)]))"
    using Cons.prems(2,4) a by (auto simp: keys_def)
  from Cons.IH [OF p1 p2 p3 p4] step a show ?case
    by (simp add: keys_def tagged_old_def)
qed

lemma restore_files_all:
  assumes "cache_temp w = Some ts"
    and "distinct (keys ts)"
    and "lookup (share_hkg w) [p, p, ''etc''] = Some (Dir d)"
    and "\<forall>g \<in> set (keys ts). g \<notin> set (keys d)"
  shows "fst (restore_files p (keys ts) w) = Inr ()
    \<and> lookup (share_hkg (snd (restore_files p (keys ts) w))) [p, p, ''etc''] = Some (Dir (d @ ts))
    \<and> cache_temp (snd (restore_files p (keys ts) w)) = Some []"
  using assms
proof (induction ts arbitrary: w d)
  case Nil
  then show ?case by (simp add: keys_def)
next
  case (Cons a ts)
  obtain g n where a: "a = (g, n)" by (cases a)
  have absent: "map_of d g = None"
    using Cons.prems(4) a by (intro map_of_absent) (simp add: keys_def)
  have dst: "rename_into n g d = Inr (d @ [(g, n)])"
    using absent by (simp add: rename_into_def update_absent_appends)
  obtain share1 where share1:
    "alter (rename_into n g) [p, p, ''etc''] (share_hkg w) = Inr share1"
    "lookup share1 [p, p, ''etc''] = Some (Dir (d @ [(g, n)]))"
    using alter_lookup [of "share_hkg w" "[p, p, ''etc'']" d "rename_into n g" "d @ [(g, n)]"]
      Cons.prems(3) dst by auto
  have notin: "g \<notin> fst ` set ts"
    using Cons.prems(2) a by (simp add: keys_def)
  have del: "AList.delete g (a # ts) = ts"
    using notin a by (simp add: delete_id)
  let ?w1 = "w\<lparr>share_hkg := share1, cache_temp := Some ts\<rparr>"
  have step: "restore_file p g w = Inr ?w1"
    using Cons.prems(1) a share1(1) del by (simp add: restore_file_def)
  have p1: "cache_temp ?w1 = Some ts" by simp
  have p2: "distinct (keys ts)" using Cons.prems(2) by (simp add: keys_def)
  have p3: "lookup (share_hkg ?w1) [p, p, ''etc''] = Some (Dir (d @ [(g, n)]))"
    using share1(2) by simp
  have p4: "\<forall>h \<in> set (keys ts). h \<notin> set (keys (d @ [(g, n)]))"
    using Cons.prems(2,4) a by (auto simp: keys_def)
  from Cons.IH [OF p1 p2 p3 p4] step a show ?case
    by (simp add: keys_def)
qed

lemma local_api_temp: "cache_temp (snd (local_api w a s n v)) = cache_temp w"
  by (simp add: local_api_def split: prod.splits)

lemma local_api_temp_eq: "local_api w a s n v = (r, w1) \<Longrightarrow> cache_temp w1 = cache_temp w"
  using local_api_temp [of w a s n v] by simp

lemma find_and_download_temp:
  "cache_temp (snd (find_and_download requests_get pkg_name sources w)) = cache_temp w"
  by (induction sources) (simp_all split: sum.splits)

lemma link_executable_temp: "link_executable pkg_name exe w = Inr w1 \<Longrightarrow> cache_temp w1 = cache_temp w"
  by (auto simp: link_executable_def split: if_splits option.splits)

lemma register_installed_temp: "cache_temp (snd (register_installed pkg_name w)) = cache_temp w"
proof -
  let ?w1 = "if parsed (local_hdb w) = None
             then w\<lparr>local_hdb := init_package_database (local_hdb w)\<rparr> else w"
  have w1: "cache_temp ?w1 = cache_temp w" by simp
  show ?thesis
  proof (cases "read_path (lookup (share_hkg ?w1) [pkg_name, ''metadata''])")
    case (Inl e)
    then show ?thesis using w1 by (simp add: register_installed_def Let_def)
  next
    case (Inr metadata)
    note md = this
    show ?thesis
    proof (cases "get_option metadata ''METADATA'' ''version''")
      case (Inl e)
      then show ?thesis using w1 md by (simp add: register_installed_def Let_def)
    next
      case (Inr ver)
      obtain r w2 where api: "local_api ?w1 ''create'' ''INSTALLED'' pkg_name ver = (r, w2)"
        by force
      have "cache_temp w2 = cache_temp w"
        using local_api_temp_eq [OF api] w1 by simp
      then show ?thesis using md Inr api
        by (cases r) (simp_all add: register_installed_def Let_def)
    qed
  qed
qed

lemma unpack_and_link_temp: "cache_temp (snd (unpack_and_link pkg_name w)) = cache_temp w"
  by (auto simp: unpack_and_link_def Let_def register_installed_temp
      split: option.splits sum.splits list.splits dest!: link_executable_temp)

lemma install_package_temp:
  "cache_temp (snd (install_package requests_get pkg_name source_override w)) = cache_temp w"
proof -
  obtain r1 w1 where c:
    "(if parsed (local_hdb w) \<noteq> None
      then local_api w ''check'' ''INSTALLED'' pkg_name ''0''
      else (Inr (PyBool False), w)) = (r1, w1)"
    by force
  have t1: "cache_temp w1 = cache_temp w"
    using c local_api_temp_eq [of w "''check''" "''INSTALLED''" pkg_name "''0''" r1 w1]
    by (auto split: if_splits)
  show ?thesis
  proof (cases r1)
    case (Inl e)
    then show ?thesis using c t1 by (simp add: install_package_def)
  next
    case (Inr installed)
    note r1 = this
    show ?thesis
    proof (cases "truthy installed")
      case True
      then show ?thesis using c t1 r1 by (simp add: install_package_def)
    next
      case False
      note nt = this
      show ?thesis
      proof (cases "if source_override = ''''
                   then (case get_section (read_config (settings_conf w1)) ''SOURCES'' of
                           Inl e \<Rightarrow> Inl e
                         | Inr srcs \<Rightarrow> Inr (keys srcs))
                   else Inr [source_override]")
        case (Inl e)
        then show ?thesis using c t1 r1 nt by (simp add: install_package_def)
      next
        case (Inr sources)
        obtain r2 w2 where fd: "find_and_download requests_get pkg_name sources w1 = (r2, w2)"
          by force
        have t2: "cache_temp w2 = cache_temp w1"
          using find_and_download_temp [of requests_get pkg_name sources w1] fd by simp
        show ?thesis
          using c t1 r1 nt Inr fd t2
          by (cases r2) (simp_all add: install_package_def unpack_and_link_temp)
      qed
    qed
  qed
qed

lemma remove_package_temp: "cache_temp (snd (remove_package pkg_name w)) = cache_temp w"
proof (cases "parsed (local_hdb w) = None")
  case True
  then show ?thesis by (simp add: remove_package_def)
next
  case False
  note ex = this
  obtain r1 w1 where c: "local_api w ''check'' ''INSTALLED'' pkg_name ''0'' = (r1, w1)"
    by force
  have t1: "cache_temp w1 = cache_temp w"
    using local_api_temp_eq [OF c] .
  obtain r2 w2 where d: "local_api w1 ''delete'' ''INSTALLED'' pkg_name ''0'' = (r2, w2)"
    by force
  have t2: "cache_temp w2 = cache_temp w1"
    using local_api_temp_eq [OF d] .
  show ?thesis
  proof (cases r1)
    case (Inl e)
    then show ?thesis using ex c t1 by (simp add: remove_package_def)
  next
    case (Inr installed)
    note r1 = this
    show ?thesis
    proof (cases "truthy installed")
      case False
      then show ?thesis using ex c t1 r1 by (simp add: remove_package_def)
    next
      case True
      note tr = this
      show ?thesis
      proof (cases r2)
        case (Inl e)
        then show ?thesis using ex c d t1 t2 r1 tr by (simp add: remove_package_def)
      next
        case (Inr r)
        note r2 = this
        show ?thesis
        proof (cases "if pkg_name \<noteq> [] then rmtree pkg_name (share_hkg w2) else Inr (share_hkg w2)")
          case (Inl e)
          then show ?thesis using ex c d t1 t2 r1 tr r2 by (simp add: remove_package_def)
        next
          case (Inr share1)
          then show ?thesis using ex c d t1 t2 r1 tr r2
            by (simp add: remove_package_def Let_def split: option.splits bin_entry.splits)
        qed
      qed
    qed
  qed
qed

lemma distinct_tagged_old: "distinct (keys es) \<Longrightarrow> distinct (keys (tagged_old es))"
  by (simp add: keys_tagged_old distinct_map inj_on_def)


text \<open>
  C3, as the code has it. With preservation on, a package whose \<^verbatim>\<open>etc/\<close> is not empty
  and a staging area that is absent or empty: every entry of \<^verbatim>\<open>etc/\<close> is moved into
  the staging area under its name followed by \<^verbatim>\<open>.hkg_old\<close> before the package is
  removed and installed again; when both calls return, every staged entry is moved into
  the new \<^verbatim>\<open>etc/\<close> under that suffixed name, after the files the new package ships
  (which are taken not to bear such names), and the staging area is deleted. The
  suffix is kept, not removed.
\<close>

theorem replace_package_keeps_suffix:
  assumes etc: "lookup (share_hkg w) [p, p, ''etc''] = Some (Dir etc)"
    and nonempty: "etc \<noteq> []"
    and names: "distinct (keys etc)"
    and temp: "cache_temp w = None \<or> cache_temp w = Some []"
    and staged: "stage_files p (keys etc) (makedirs_temp w) = (r1, w1)"
    and removed: "remove_package p w1 = (Inr r2, w2)"
    and installed: "install_package requests_get p s w2 = (Inr r3, w3)"
    and fresh: "lookup (share_hkg w3) [p, p, ''etc''] = Some (Dir fresh)"
    and noclash: "\<forall>f \<in> set (keys etc). f @ ''.hkg_old'' \<notin> set (keys fresh)"
  shows "r1 = Inr ()
    \<and> cache_temp w1 = Some (tagged_old etc)
    \<and> lookup (share_hkg w1) [p, p, ''etc''] = Some (Dir [])
    \<and> fst (replace_package requests_get False p s (cleanup, w)) = Inr ()
    \<and> lookup (share_hkg (snd (snd (replace_package requests_get False p s (cleanup, w)))))
        [p, p, ''etc''] = Some (Dir (fresh @ tagged_old etc))
    \<and> cache_temp (snd (snd (replace_package requests_get False p s (cleanup, w)))) = None"
proof -
  let ?w0 = "makedirs_temp w"
  have t0: "cache_temp ?w0 = Some []"
    using temp by (auto simp: makedirs_temp_def)
  have e0: "lookup (share_hkg ?w0) [p, p, ''etc''] = Some (Dir (etc @ []))"
    using etc by (simp add: makedirs_temp_def split: option.splits)
  have d0: "distinct (keys (etc @ []))" using names by simp
  have c0: "\<forall>f \<in> set (keys etc). f @ ''.hkg_old'' \<notin> set (keys ([] :: (string \<times> fs) list))"
    by (simp add: keys_def)
  from stage_files_all [OF e0 d0 t0 c0] staged
  have s1: "r1 = Inr ()" and s2: "lookup (share_hkg w1) [p, p, ''etc''] = Some (Dir [])"
    and s3: "cache_temp w1 = Some (tagged_old etc)"
    by simp_all
  have t2: "cache_temp w2 = Some (tagged_old etc)"
    using remove_package_temp [of p w1] removed s3 by simp
  have t3: "cache_temp w3 = Some (tagged_old etc)"
    using install_package_temp [of requests_get p s w2] installed t2 by simp
  have d3: "distinct (keys (tagged_old etc))" using names by (rule distinct_tagged_old)
  have c3: "\<forall>g \<in> set (keys (tagged_old etc)). g \<notin> set (keys fresh)"
    using noclash by (auto simp: keys_tagged_old)
  note restored = restore_files_all [OF t3 d3 fresh c3]
  obtain r4 w4 where r: "restore_files p (keys (tagged_old etc)) w3 = (r4, w4)" by force
  from restored r have b1: "r4 = Inr ()"
    and b2: "lookup (share_hkg w4) [p, p, ''etc''] = Some (Dir (fresh @ tagged_old etc))"
    by simp_all
  have ls: "listdir (lookup (share_hkg w) [p, p, ''etc'']) = Inr (keys etc)"
    using etc by (simp add: listdir_def)
  have len: "length (keys etc) > 0" using nonempty by (simp add: keys_def)
  have lt: "listdir (map_option Dir (cache_temp w3)) = Inr (keys (tagged_old etc))"
    using t3 by (simp add: listdir_def)
  have run: "replace_package requests_get False p s (cleanup, w)
               = (Inr (), True, w4\<lparr>cache_temp := None\<rparr>)"
    using ls len staged s1 removed installed lt r b1
    by (simp add: replace_package_def)
  show ?thesis using s1 s2 s3 run b2 by simp
qed

theorem replace_package_keeps_suffix_witness:
  "lookup (share_hkg (snd (snd (replace_package (serve up_table) False ''spam'' ''http://up''
              (False, spam_home)))))
      [''spam'', ''spam'', ''etc'']
     = Some (Dir ([(''settings.conf'', File (Raw ''new''))]
                  @ tagged_old [(''settings.conf'', File (Raw ''mine'')),
                               (''extra.conf'', File (Raw ''more''))]))
   \<and> cache_temp (snd (snd (replace_package (serve up_table) False ''spam'' ''http://up''
              (False, spam_home)))) = None"
proof -
  let ?etc = "[(''settings.conf'', File (Raw ''mine'')), (''extra.conf'', File (Raw ''more''))]"
  let ?fresh = "[(''settings.conf'', File (Raw ''new''))]"
  let ?st = "stage_files ''spam'' (keys ?etc) (makedirs_temp spam_home)"
  let ?rm = "remove_package ''spam'' (snd ?st)"
  let ?ins = "install_package (serve up_table) ''spam'' ''http://up'' (snd ?rm)"
  have h1: "lookup (share_hkg spam_home) [''spam'', ''spam'', ''etc''] = Some (Dir ?etc)"
    by code_simp
  have h2: "?etc \<noteq> []" by simp
  have h3: "distinct (keys ?etc)" by (simp add: keys_def)
  have h4: "cache_temp spam_home = None \<or> cache_temp spam_home = Some []"
    by (simp add: spam_home_def)
  have h5: "?st = (fst ?st, snd ?st)" by simp
  have h6: "?rm = (Inr True, snd ?rm)" by code_simp
  have h7: "?ins = (Inr True, snd ?ins)" by code_simp
  have h8: "lookup (share_hkg (snd ?ins)) [''spam'', ''spam'', ''etc''] = Some (Dir ?fresh)"
    by code_simp
  have h9: "\<forall>f \<in> set (keys ?etc). f @ ''.hkg_old'' \<notin> set (keys ?fresh)"
    by (simp add: keys_def)
  from replace_package_keeps_suffix [OF h1 h2 h3 h4 h5 h6 h7 h8 h9, of False]
  show ?thesis by blast
qed

text \<open>
  C3, as the specification has it, fails: after the update of \<^verbatim>\<open>spam\<close> the file
  \<^verbatim>\<open>extra.conf\<close> that was staged is not in the new \<^verbatim>\<open>etc/\<close> under its own name but as
  \<^verbatim>\<open>extra.conf.hkg_old\<close>, and \<^verbatim>\<open>settings.conf\<close> there is the one the new package
  ships, with the user's copy beside it as \<^verbatim>\<open>settings.conf.hkg_old\<close>.
\<close>

theorem update_package_suffix_counterexample:
  "fst (update_package (serve up_table) ''all'' False spam_home) = Inr True
   \<and> lookup (share_hkg (snd (update_package (serve up_table) ''all'' False spam_home)))
        [''spam'', ''spam'', ''etc'', ''extra.conf''] = None
   \<and> lookup (share_hkg (snd (update_package (serve up_table) ''all'' False spam_home)))
        [''spam'', ''spam'', ''etc'', ''extra.conf.hkg_old''] = Some (File (Raw ''more''))
   \<and> lookup (share_hkg (snd (update_package (serve up_table) ''all'' False spam_home)))
        [''spam'', ''spam'', ''etc'', ''settings.conf''] = Some (File (Raw ''new''))
   \<and> lookup (share_hkg (snd (update_package (serve up_table) ''all'' False spam_home)))
        [''spam'', ''spam'', ''etc'', ''settings.conf.hkg_old''] = Some (File (Raw ''mine''))"
  by code_simp


end
